theory Spec2Isabelle
  imports Complex_Main
begin

chapter \<open>The bail-bonds audit scripts: derivation, bucketing and field statistics\<close>

section \<open>Documents\<close>

text \<open>
  The scripts read MongoDB documents: nested dictionaries and lists over scalars. A
  Python float is modelled by its exact rational value when finite, with the three
  special values kept apart; rounding and overflow of finite arithmetic are not
  modelled. A \<^verbatim>\<open>datetime\<close> is the reading of its own wall clock in microseconds
  since 1970-01-01T00:00:00 together with its UTC offset in microseconds
  (\<open>None\<close> for a naive value). An \<^verbatim>\<open>ObjectId\<close> is held as the string \<^verbatim>\<open>str\<close>
  gives for it. Strings are ASCII; a dictionary is an association list in insertion order.
\<close>

datatype pyfloat = Finite rat | PosInf | NegInf | NaN

record datetime =
  wall :: int
  utcoffset :: "int option"

datatype pyval =
    PNone
  | PBool bool
  | PInt int
  | PFloat pyfloat
  | PStr string
  | PDatetime datetime
  | PObjectId string
  | PBytes string
  | PList "pyval list"
  | PDict "(string \<times> pyval) list"

text \<open>\<^verbatim>\<open>str(i)\<close> for a list index.\<close>

definition digit_char :: "nat \<Rightarrow> char" where
  "digit_char d = ''0123456789'' ! d"

fun str_nat :: "nat \<Rightarrow> string" where
  "str_nat n = (if n < 10 then [digit_char n] else str_nat (n div 10) @ [digit_char (n mod 10)])"

declare str_nat.simps [simp del]

text \<open>
  \<^verbatim>\<open>d[k] = v\<close> on an insertion-ordered dictionary, and \<^verbatim>\<open>dict(items)\<close>: a key that
  comes again keeps its place and takes the later value.
\<close>

fun dict_set :: "('k \<times> 'v) list \<Rightarrow> 'k \<Rightarrow> 'v \<Rightarrow> ('k \<times> 'v) list" where
  "dict_set [] k v = [(k, v)]"
| "dict_set ((k', v') # d) k v = (if k' = k then (k, v) # d else (k', v') # dict_set d k v)"

fun dict_extend :: "('k \<times> 'v) list \<Rightarrow> ('k \<times> 'v) list \<Rightarrow> ('k \<times> 'v) list" where
  "dict_extend d [] = d"
| "dict_extend d ((k, v) # items) = dict_extend (dict_set d k v) items"

definition dict_of_items :: "('k \<times> 'v) list \<Rightarrow> ('k \<times> 'v) list" where
  "dict_of_items items = dict_extend [] items"

section \<open>Flattening (atlas\_categorical\_field\_audit.py)\<close>

text \<open>
  \<^verbatim>\<open>flatten(doc, parent_key, sep=".")\<close>. Each call collects \<^verbatim>\<open>items\<close> and returns
  \<^verbatim>\<open>dict(items)\<close>; the two loops are \<open>flatten_dict\<close> and \<open>flatten_list\<close>, the latter
  carrying the index of \<^verbatim>\<open>enumerate\<close>.
\<close>

fun flatten :: "pyval \<Rightarrow> string \<Rightarrow> (string \<times> pyval) list"
  and flatten_dict :: "(string \<times> pyval) list \<Rightarrow> string \<Rightarrow> (string \<times> pyval) list"
  and flatten_list :: "pyval list \<Rightarrow> nat \<Rightarrow> string \<Rightarrow> (string \<times> pyval) list"
where
  "flatten (PDict kvs) parent_key = dict_of_items (flatten_dict kvs parent_key)"
| "flatten (PList xs) parent_key =
     dict_of_items (flatten_list xs 0 parent_key @ [(parent_key @ ''[]'', PBool True)])"
| "flatten PNone parent_key = dict_of_items [(parent_key, PNone)]"
| "flatten (PBool b) parent_key = dict_of_items [(parent_key, PBool b)]"
| "flatten (PInt i) parent_key = dict_of_items [(parent_key, PInt i)]"
| "flatten (PFloat f) parent_key = dict_of_items [(parent_key, PFloat f)]"
| "flatten (PStr s) parent_key = dict_of_items [(parent_key, PStr s)]"
| "flatten (PDatetime d) parent_key = dict_of_items [(parent_key, PDatetime d)]"
| "flatten (PObjectId s) parent_key = dict_of_items [(parent_key, PObjectId s)]"
| "flatten (PBytes s) parent_key = dict_of_items [(parent_key, PBytes s)]"
| "flatten_dict [] parent_key = []"
| "flatten_dict ((k, v) # kvs) parent_key =
     flatten v (if parent_key \<noteq> [] then parent_key @ ''.'' @ k else k)
       @ flatten_dict kvs parent_key"
| "flatten_list [] i parent_key = []"
| "flatten_list (v # vs) i parent_key =
     flatten v (parent_key @ ''['' @ str_nat i @ '']'') @ flatten_list vs (Suc i) parent_key"

text \<open>
  Vocabulary for stating properties of \<open>flatten\<close>: the entries the calls append before
  any \<^verbatim>\<open>dict(...)\<close> merges them, and the paths at which a document holds a list.
\<close>

fun emitted :: "pyval \<Rightarrow> string \<Rightarrow> (string \<times> pyval) list"
  and emitted_dict :: "(string \<times> pyval) list \<Rightarrow> string \<Rightarrow> (string \<times> pyval) list"
  and emitted_list :: "pyval list \<Rightarrow> nat \<Rightarrow> string \<Rightarrow> (string \<times> pyval) list"
where
  "emitted (PDict kvs) p = emitted_dict kvs p"
| "emitted (PList xs) p = emitted_list xs 0 p @ [(p @ ''[]'', PBool True)]"
| "emitted PNone p = [(p, PNone)]"
| "emitted (PBool b) p = [(p, PBool b)]"
| "emitted (PInt i) p = [(p, PInt i)]"
| "emitted (PFloat f) p = [(p, PFloat f)]"
| "emitted (PStr s) p = [(p, PStr s)]"
| "emitted (PDatetime d) p = [(p, PDatetime d)]"
| "emitted (PObjectId s) p = [(p, PObjectId s)]"
| "emitted (PBytes s) p = [(p, PBytes s)]"
| "emitted_dict [] p = []"
| "emitted_dict ((k, v) # kvs) p =
     emitted v (if p \<noteq> [] then p @ ''.'' @ k else k) @ emitted_dict kvs p"
| "emitted_list [] i p = []"
| "emitted_list (v # vs) i p =
     emitted v (p @ ''['' @ str_nat i @ '']'') @ emitted_list vs (Suc i) p"

fun lists_at :: "pyval \<Rightarrow> string \<Rightarrow> (string \<times> pyval list) list"
  and lists_at_dict :: "(string \<times> pyval) list \<Rightarrow> string \<Rightarrow> (string \<times> pyval list) list"
  and lists_at_list :: "pyval list \<Rightarrow> nat \<Rightarrow> string \<Rightarrow> (string \<times> pyval list) list"
where
  "lists_at (PDict kvs) p = lists_at_dict kvs p"
| "lists_at (PList xs) p = (p, xs) # lists_at_list xs 0 p"
| "lists_at PNone p = []"
| "lists_at (PBool b) p = []"
| "lists_at (PInt i) p = []"
| "lists_at (PFloat f) p = []"
| "lists_at (PStr s) p = []"
| "lists_at (PDatetime d) p = []"
| "lists_at (PObjectId s) p = []"
| "lists_at (PBytes s) p = []"
| "lists_at_dict [] p = []"
| "lists_at_dict ((k, v) # kvs) p =
     lists_at v (if p \<noteq> [] then p @ ''.'' @ k else k) @ lists_at_dict kvs p"
| "lists_at_list [] i p = []"
| "lists_at_list (v # vs) i p =
     lists_at v (p @ ''['' @ str_nat i @ '']'') @ lists_at_list vs (Suc i) p"

definition segment_of :: "'a list \<Rightarrow> 'a list \<Rightarrow> bool" where
  "segment_of xs ys \<longleftrightarrow> (\<exists>pre post. ys = pre @ xs @ post)"

text \<open>A document for examples: a list, and two keys that give the same path.\<close>

abbreviation list_and_clash :: pyval where
  "list_and_clash \<equiv>
     PDict [(''a'', PList [PInt 1, PList []]), (''b.c'', PInt 1), (''b'', PDict [(''c'', PInt 2)])]"

section \<open>The Python library functions the scripts call\<close>

text \<open>
  A call that raises is modelled by its exception; every call site below catches it.
  Characters are ASCII. An integer of a document is a BSON integer of at most 64 bits,
  so its conversion to a float does not overflow; like all finite float arithmetic here it
  is taken exactly.
\<close>

datatype pyerror = TypeError | ValueError | OverflowError

definition isdigit :: "char \<Rightarrow> bool" where
  "isdigit c \<longleftrightarrow> c \<in> set ''0123456789''"

definition digit_val :: "char \<Rightarrow> nat" where
  "digit_val c = of_char c - 48"

definition isspace :: "char \<Rightarrow> bool" where
  "isspace c \<longleftrightarrow> of_char c \<in> {9, 10, 11, 12, 13, 28, 29, 30, 31, 32 :: nat}"

definition strip :: "string \<Rightarrow> string" where
  "strip s = rev (dropWhile isspace (rev (dropWhile isspace s)))"

definition lower_char :: "char \<Rightarrow> char" where
  "lower_char c = (let n = (of_char c :: nat) in if 65 \<le> n \<and> n \<le> 90 then char_of (n + 32) else c)"


definition lower :: "string \<Rightarrow> string" where
  "lower s = map lower_char s"


text \<open>\<^verbatim>\<open>s.split(sep)\<close> for a one-character separator: always at least one part.\<close>

fun split_on :: "char \<Rightarrow> string \<Rightarrow> string list" where
  "split_on sep [] = [[]]"
| "split_on sep (c # cs) =
     (if c = sep then [] # split_on sep cs
      else (case split_on sep cs of p # ps \<Rightarrow> (c # p) # ps | [] \<Rightarrow> [[c]]))"

text \<open>\<^verbatim>\<open>needle in s\<close> for strings.\<close>

fun contains :: "string \<Rightarrow> string \<Rightarrow> bool" where
  "contains [] needle = (needle = [])"
| "contains (c # cs) needle = (take (length needle) (c # cs) = needle \<or> contains cs needle)"

text \<open>
  The digits of a numeric literal, \<^verbatim>\<open>digit (["_"] digit)*\<close>, as \<^verbatim>\<open>int()\<close> and
  \<^verbatim>\<open>float()\<close> accept them, and their value.
\<close>

fun digitpart :: "string \<Rightarrow> bool" where
  "digitpart [] = False"
| "digitpart [c] = isdigit c"
| "digitpart (c # d # cs) =
     (isdigit c \<and> (if d = CHR ''_'' then digitpart cs else digitpart (d # cs)))"

definition digits_val :: "string \<Rightarrow> nat" where
  "digits_val s = foldl (\<lambda>a c. 10 * a + digit_val c) 0 (filter isdigit s)"

definition split_sign :: "string \<Rightarrow> bool \<times> string" where
  "split_sign s =
     (case s of
        c # cs \<Rightarrow> if c = CHR ''-'' then (True, cs) else if c = CHR ''+'' then (False, cs)
                  else (False, s)
      | [] \<Rightarrow> (False, s))"

text \<open>\<^verbatim>\<open>int(s)\<close> for a string, base 10.\<close>

definition int_of_str :: "string \<Rightarrow> pyerror + int" where
  "int_of_str s =
     (let (neg, ds) = split_sign (strip s)
      in if digitpart ds then Inr (if neg then - int (digits_val ds) else int (digits_val ds))
         else Inl ValueError)"

text \<open>
  \<^verbatim>\<open>float(s)\<close> for a string: surrounding whitespace, a sign, then \<^verbatim>\<open>inf\<close>,
  \<^verbatim>\<open>infinity\<close> or \<^verbatim>\<open>nan\<close> in any case, or a decimal number with an optional
  exponent. The value is the exact decimal: a literal too large for a double is infinite
  in Python and finite here.
\<close>

definition mantissa :: "string \<Rightarrow> rat option" where
  "mantissa m =
     (let ip = takeWhile (\<lambda>c. c \<noteq> CHR ''.'') m;
          rest = dropWhile (\<lambda>c. c \<noteq> CHR ''.'') m
      in case rest of
           [] \<Rightarrow> if digitpart ip then Some (of_nat (digits_val ip)) else None
         | _ # fp \<Rightarrow>
             if (ip = [] \<and> digitpart fp) \<or> (digitpart ip \<and> (fp = [] \<or> digitpart fp))
             then Some (of_nat (digits_val ip)
                        + of_nat (digits_val fp) / 10 ^ length (filter isdigit fp))
             else None)"

definition exponent :: "string \<Rightarrow> int option" where
  "exponent e =
     (let (neg, ds) = split_sign e
      in if digitpart ds then Some (if neg then - int (digits_val ds) else int (digits_val ds))
         else None)"

definition scale10 :: "rat \<Rightarrow> int \<Rightarrow> rat" where
  "scale10 m e = (if 0 \<le> e then m * 10 ^ nat e else m / 10 ^ nat (- e))"

definition floatnumber :: "string \<Rightarrow> rat option" where
  "floatnumber s =
     (let is_e = (\<lambda>c. c = CHR ''e'' \<or> c = CHR ''E'');
          m = takeWhile (\<lambda>c. \<not> is_e c) s;
          rest = dropWhile (\<lambda>c. \<not> is_e c) s
      in case mantissa m of
           None \<Rightarrow> None
         | Some q \<Rightarrow>
             (case rest of
                [] \<Rightarrow> Some q
              | _ # e \<Rightarrow> (case exponent e of None \<Rightarrow> None | Some n \<Rightarrow> Some (scale10 q n))))"

definition float_of_str :: "string \<Rightarrow> pyerror + pyfloat" where
  "float_of_str s =
     (let (neg, body) = split_sign (strip s)
      in if lower body = ''inf'' \<or> lower body = ''infinity''
         then Inr (if neg then NegInf else PosInf)
         else if lower body = ''nan'' then Inr NaN
         else (case floatnumber body of
                 None \<Rightarrow> Inl ValueError
               | Some q \<Rightarrow> Inr (Finite (if neg then - q else q))))"

text \<open>\<^verbatim>\<open>float(x)\<close> for a value of a document; bytes are read as the same text.\<close>

fun py_float :: "pyval \<Rightarrow> pyerror + pyfloat" where
  "py_float (PStr s) = float_of_str s"
| "py_float (PBytes s) = float_of_str s"
| "py_float (PInt i) = Inr (Finite (of_int i))"
| "py_float (PBool b) = Inr (Finite (if b then 1 else 0))"
| "py_float (PFloat f) = Inr f"
| "py_float PNone = Inl TypeError"
| "py_float (PDatetime d) = Inl TypeError"
| "py_float (PObjectId s) = Inl TypeError"
| "py_float (PList xs) = Inl TypeError"
| "py_float (PDict kvs) = Inl TypeError"

text \<open>Float addition, and \<^verbatim>\<open>float(sum(xs))\<close>, which starts from the integer 0.\<close>

fun fadd :: "pyfloat \<Rightarrow> pyfloat \<Rightarrow> pyfloat" where
  "fadd NaN y = NaN"
| "fadd x NaN = NaN"
| "fadd (Finite a) (Finite b) = Finite (a + b)"
| "fadd PosInf NegInf = NaN"
| "fadd NegInf PosInf = NaN"
| "fadd PosInf y = PosInf"
| "fadd NegInf y = NegInf"
| "fadd (Finite a) y = y"

definition float_sum :: "pyfloat list \<Rightarrow> pyfloat" where
  "float_sum xs = foldl fadd (Finite 0) xs"

section \<open>Numeric extraction and the bond amount (atlas\_source\_audit.py)\<close>

definition NUMBER_KEYS :: "string set" where
  "NUMBER_KEYS = {''$numberInt'', ''$numberDouble'', ''$numberLong'', ''$numberDecimal''}"

definition BOND_FIELDS_BY_COLLECTION :: "(string \<times> string list) list" where
  "BOND_FIELDS_BY_COLLECTION =
     [(''galveston_events'', [''total_bond'', ''bonds.amount'']),
      (''jefferson_events'', [''total_bond'', ''bonds.amount'']),
      (''brazoria_inmates'', [''bond_total'', ''charges.bond/type'']),
      (''fortbend_inmates'', [''charges.bail_amount_int'', ''charges.bail_amount'']),
      (''harris_bond'', [''bond_amount'']),
      (''harris_nafiling'', [''bond_amount'']),
      (''harris_misfel'', [''bond_amount'']),
      (''galveston_persons'', []),
      (''persons'', [])]"

text \<open>\<^verbatim>\<open>is_number\<close>: an int or a float (a bool is an int) that is not NaN.\<close>

fun is_number :: "pyval \<Rightarrow> bool" where
  "is_number (PBool b) = True"
| "is_number (PInt i) = True"
| "is_number (PFloat f) = (f \<noteq> NaN)"
| "is_number v = False"

text \<open>
  \<^verbatim>\<open>re.search(r"[-+]?\d[\d,]*\.?\d*", s)\<close>. \<open>match_number\<close> is the pattern tried at
  the start of its input: every part after the first digit is optional and greedy, so the
  only backtracking is over the sign, and a sign not followed by a digit matches neither
  way. The search returns the match at the leftmost position that has one.
\<close>

definition match_number :: "string \<Rightarrow> string option" where
  "match_number s =
     (let sg = (case s of c # cs \<Rightarrow> if c = CHR ''-'' \<or> c = CHR ''+'' then [c] else [] | [] \<Rightarrow> []);
          r = drop (length sg) s
      in case r of
           [] \<Rightarrow> None
         | d # r1 \<Rightarrow>
             if isdigit d then
               (let body = takeWhile (\<lambda>c. isdigit c \<or> c = CHR '','') r1;
                    r2 = dropWhile (\<lambda>c. isdigit c \<or> c = CHR '','') r1;
                    dot = (case r2 of c # cs \<Rightarrow> if c = CHR ''.'' then [c] else [] | [] \<Rightarrow> []);
                    r3 = drop (length dot) r2
                in Some (sg @ [d] @ body @ dot @ takeWhile isdigit r3))
             else None)"

fun search_number :: "string \<Rightarrow> string option" where
  "search_number [] = None"
| "search_number (c # cs) =
     (case match_number (c # cs) of Some m \<Rightarrow> Some m | None \<Rightarrow> search_number cs)"

text \<open>
  \<^verbatim>\<open>_extract_first_numeric(obj)\<close>. \<^verbatim>\<open>NUMBER_KEYS\<close> is a Python set of strings, whose
  iteration order is not fixed; the order of one run is the parameter \<open>ks\<close>.
  \<open>wrapper_loop\<close> is the loop over the keys for a dictionary: a payload \<^verbatim>\<open>float()\<close>
  rejects is passed over.
\<close>

fun wrapper_loop :: "string list \<Rightarrow> (string \<times> pyval) list \<Rightarrow> pyfloat option" where
  "wrapper_loop [] obj = None"
| "wrapper_loop (k # ks) obj =
     (case map_of obj k of
        None \<Rightarrow> wrapper_loop ks obj
      | Some v \<Rightarrow> (case py_float v of Inr f \<Rightarrow> Some f | Inl e \<Rightarrow> wrapper_loop ks obj))"

fun extract_first_numeric :: "string list \<Rightarrow> pyval \<Rightarrow> pyfloat option"
  and extract_first_of_list :: "string list \<Rightarrow> pyval list \<Rightarrow> pyfloat option"
where
  "extract_first_numeric ks (PDict kvs) = wrapper_loop ks kvs"
| "extract_first_numeric ks (PList xs) = extract_first_of_list ks xs"
| "extract_first_numeric ks (PStr s) =
     (case search_number s of
        None \<Rightarrow> None
      | Some m \<Rightarrow>
          (case float_of_str (filter (\<lambda>c. c \<noteq> CHR '','') m) of
             Inr f \<Rightarrow> Some f
           | Inl e \<Rightarrow> None))"
| "extract_first_numeric ks (PBool b) = Some (Finite (if b then 1 else 0))"
| "extract_first_numeric ks (PInt i) = Some (Finite (of_int i))"
| "extract_first_numeric ks (PFloat f) = (if f \<noteq> NaN then Some f else None)"
| "extract_first_numeric ks PNone = None"
| "extract_first_numeric ks (PDatetime d) = None"
| "extract_first_numeric ks (PObjectId s) = None"
| "extract_first_numeric ks (PBytes s) = None"
| "extract_first_of_list ks [] = None"
| "extract_first_of_list ks (it # its) =
     (case extract_first_numeric ks it of
        Some v \<Rightarrow> Some v
      | None \<Rightarrow> extract_first_of_list ks its)"

text \<open>
  \<^verbatim>\<open>_get_dotted(doc, path)\<close> with its inner \<^verbatim>\<open>_walk(obj, idx)\<close>.
\<close>

lemma size_map_of_value:
  "map_of kvs k = Some v \<Longrightarrow> size v < Suc (size_list (size_prod (\<lambda>_. 0) size) kvs)"
  by (induction kvs) (auto split: if_splits)

function (sequential) walk :: "string list \<Rightarrow> pyval \<Rightarrow> nat \<Rightarrow> pyval list" where
  "walk parts PNone idx = []"
| "walk parts obj idx =
     (if idx = length parts then [obj]
      else (case obj of
              PList items \<Rightarrow> concat (map (\<lambda>item. walk parts item idx) items)
            | PDict kvs \<Rightarrow>
                (case map_of kvs (parts ! idx) of
                   Some v \<Rightarrow> walk parts v (idx + 1)
                 | None \<Rightarrow> [])
            | _ \<Rightarrow> []))"
  by pat_completeness auto
termination
  by (relation "measure (\<lambda>(parts, obj, idx). size obj)")
     (auto simp: less_Suc_eq_le size_list_estimation' dest: size_map_of_value)

definition get_dotted :: "pyval \<Rightarrow> string \<Rightarrow> pyval list" where
  "get_dotted doc path = walk (split_on CHR ''.'' path) doc 0"

text \<open>\<^verbatim>\<open>derive_bond_amount(coll_name, doc)\<close>; \<open>numeric_vals\<close> is its inner loop.\<close>

fun numeric_vals :: "string list \<Rightarrow> pyval list \<Rightarrow> pyfloat list" where
  "numeric_vals ks [] = []"
| "numeric_vals ks (v # vals) =
     (case extract_first_numeric ks v of
        Some n \<Rightarrow> n # numeric_vals ks vals
      | None \<Rightarrow> numeric_vals ks vals)"

fun bond_amount_of :: "string list \<Rightarrow> pyval \<Rightarrow> string list \<Rightarrow> pyfloat option" where
  "bond_amount_of ks doc [] = None"
| "bond_amount_of ks doc (k # rest) =
     (let nums = numeric_vals ks (get_dotted doc k)
      in if nums \<noteq> [] then Some (float_sum nums) else bond_amount_of ks doc rest)"

definition bond_fields :: "string \<Rightarrow> string list" where
  "bond_fields coll_name =
     (case map_of BOND_FIELDS_BY_COLLECTION coll_name of Some fs \<Rightarrow> fs | None \<Rightarrow> [])"

definition derive_bond_amount :: "string list \<Rightarrow> string \<Rightarrow> pyval \<Rightarrow> pyfloat option" where
  "derive_bond_amount ks coll_name doc = bond_amount_of ks doc (bond_fields coll_name)"

text \<open>
  Vocabulary for the claims about the bond amount: the numerics extracted from the values
  a candidate field resolves to, non-negative floats, and inputs without digits.
  \<open>no_digits\<close> holds of a value that, as written, has no digit character in it;
  \<open>text_only\<close> further excludes booleans and floats standing alone, and a numeric
  wrapper whose payload is a boolean, a float, or a spelling of inf, infinity or nan.
\<close>

definition extracted :: "string list \<Rightarrow> pyval \<Rightarrow> string \<Rightarrow> pyfloat list" where
  "extracted ks doc k = List.map_filter (extract_first_numeric ks) (get_dotted doc k)"

fun nonneg :: "pyfloat \<Rightarrow> bool" where
  "nonneg (Finite q) = (0 \<le> q)"
| "nonneg PosInf = True"
| "nonneg NegInf = False"
| "nonneg NaN = False"

definition digitless :: "string \<Rightarrow> bool" where
  "digitless s \<longleftrightarrow> (\<forall>c \<in> set s. \<not> isdigit c)"

fun no_digits :: "pyval \<Rightarrow> bool"
  and no_digits_dict :: "(string \<times> pyval) list \<Rightarrow> bool"
  and no_digits_list :: "pyval list \<Rightarrow> bool"
where
  "no_digits PNone = True"
| "no_digits (PBool b) = True"
| "no_digits (PInt i) = False"
| "no_digits (PFloat f) = (case f of Finite q \<Rightarrow> False | _ \<Rightarrow> True)"
| "no_digits (PStr s) = digitless s"
| "no_digits (PDatetime d) = False"
| "no_digits (PObjectId s) = digitless s"
| "no_digits (PBytes s) = digitless s"
| "no_digits (PList xs) = no_digits_list xs"
| "no_digits (PDict kvs) = no_digits_dict kvs"
| "no_digits_dict [] = True"
| "no_digits_dict ((k, v) # kvs) = (digitless k \<and> no_digits v \<and> no_digits_dict kvs)"
| "no_digits_list [] = True"
| "no_digits_list (v # vs) = (no_digits v \<and> no_digits_list vs)"

definition spells_special :: "string \<Rightarrow> bool" where
  "spells_special s \<longleftrightarrow>
     lower (snd (split_sign (strip s))) \<in> {''inf'', ''infinity'', ''nan''}"

fun payload_text :: "pyval \<Rightarrow> bool" where
  "payload_text (PBool b) = False"
| "payload_text (PFloat f) = False"
| "payload_text (PStr s) = (\<not> spells_special s)"
| "payload_text (PBytes s) = (\<not> spells_special s)"
| "payload_text v = True"

fun text_only :: "pyval \<Rightarrow> bool"
  and text_only_list :: "pyval list \<Rightarrow> bool"
where
  "text_only (PBool b) = False"
| "text_only (PFloat f) = False"
| "text_only (PList xs) = text_only_list xs"
| "text_only (PDict kvs) =
     (\<forall>k \<in> NUMBER_KEYS. case map_of kvs k of None \<Rightarrow> True | Some v \<Rightarrow> payload_text v)"
| "text_only PNone = True"
| "text_only (PInt i) = True"
| "text_only (PStr s) = True"
| "text_only (PDatetime d) = True"
| "text_only (PObjectId s) = True"
| "text_only (PBytes s) = True"
| "text_only_list [] = True"
| "text_only_list (v # vs) = (text_only v \<and> text_only_list vs)"

text \<open>An iteration order of \<^verbatim>\<open>NUMBER_KEYS\<close> and a document, for examples.\<close>

abbreviation key_order :: "string list" where
  "key_order \<equiv> [''$numberInt'', ''$numberDouble'', ''$numberLong'', ''$numberDecimal'']"

abbreviation two_bonds :: pyval where
  "two_bonds \<equiv>
     PDict [(''bonds'', PList [PDict [(''amount'', PInt 5)], PDict [(''amount'', PStr ''7'')],
                               PDict [(''x'', PInt 1)]])]"

section \<open>Dates and temporal extraction (atlas\_source\_audit.py)\<close>

text \<open>
  The proleptic Gregorian calendar of \<^verbatim>\<open>datetime\<close>: the ordinal of a date counts days
  from 0001-01-01 = 1, and 1970-01-01 has ordinal 719163. \<open>mk_wall\<close> is the constructor
  \<^verbatim>\<open>datetime(y, m, d, H, M, S)\<close> with its range checks, giving the wall-clock reading
  in microseconds since 1970-01-01T00:00:00.
\<close>

definition is_leap :: "int \<Rightarrow> bool" where
  "is_leap y \<longleftrightarrow> y mod 4 = 0 \<and> (y mod 100 \<noteq> 0 \<or> y mod 400 = 0)"

definition month_lengths :: "int \<Rightarrow> int list" where
  "month_lengths y = [31, if is_leap y then 29 else 28, 31, 30, 31, 30, 31, 31, 30, 31, 30, 31]"

definition days_in_month :: "int \<Rightarrow> int \<Rightarrow> int" where
  "days_in_month y m = month_lengths y ! nat (m - 1)"

definition days_before_year :: "int \<Rightarrow> int" where
  "days_before_year y = (y - 1) * 365 + (y - 1) div 4 - (y - 1) div 100 + (y - 1) div 400"

definition days_before_month :: "int \<Rightarrow> int \<Rightarrow> int" where
  "days_before_month y m = sum_list (take (nat (m - 1)) (month_lengths y))"

definition ymd2ord :: "int \<Rightarrow> int \<Rightarrow> int \<Rightarrow> int" where
  "ymd2ord y m d = days_before_year y + days_before_month y m + d"

definition mk_wall :: "int \<Rightarrow> int \<Rightarrow> int \<Rightarrow> int \<Rightarrow> int \<Rightarrow> int \<Rightarrow> pyerror + int" where
  "mk_wall y m d H M S =
     (if 1 \<le> y \<and> y \<le> 9999 \<and> 1 \<le> m \<and> m \<le> 12 \<and> 1 \<le> d \<and> d \<le> days_in_month y m
         \<and> 0 \<le> H \<and> H < 24 \<and> 0 \<le> M \<and> M < 60 \<and> 0 \<le> S \<and> S < 60
      then Inr ((((ymd2ord y m d - 719163) * 86400) + H * 3600 + M * 60 + S) * 1000000)
      else Inl ValueError)"

definition utc_datetime :: "int \<Rightarrow> datetime" where
  "utc_datetime w = \<lparr>wall = w, utcoffset = Some 0\<rparr>"

text \<open>\<^verbatim>\<open>x if x.tzinfo else x.replace(tzinfo=dt.timezone.utc)\<close>.\<close>

definition ensure_aware :: "datetime \<Rightarrow> datetime" where
  "ensure_aware x = (if utcoffset x \<noteq> None then x else x\<lparr>utcoffset := Some 0\<rparr>)"

text \<open>The instant of an aware datetime, in microseconds since the epoch.\<close>

definition instant :: "datetime \<Rightarrow> int" where
  "instant d = wall d - (case utcoffset d of Some off \<Rightarrow> off | None \<Rightarrow> 0)"

text \<open>
  \<^verbatim>\<open>datetime.fromtimestamp(sec, tz=utc)\<close>: the seconds are rounded half-even to
  microseconds; a result outside the years 1 to 9999 raises, which the caller turns
  into null.
\<close>

definition round_half_even :: "rat \<Rightarrow> int" where
  "round_half_even q =
     (let f = \<lfloor>q\<rfloor>; r = q - of_int f
      in if r < 1 / 2 then f else if 1 / 2 < r then f + 1 else if even f then f else f + 1)"







definition one :: "(char \<Rightarrow> bool) \<Rightarrow> string \<Rightarrow> (nat \<times> string) list" where
  "one P s = (case s of a # r \<Rightarrow> if P a then [(digit_val a, r)] else [] | [] \<Rightarrow> [])"






text \<open>
  Two library functions are not modelled but taken as parameters: the general ISO parser
  \<^verbatim>\<open>datetime.fromisoformat\<close> (\<open>None\<close> when it raises), whose accepted inputs depend on
  the Python version, and \<^verbatim>\<open>str(x)\<close> for a value that is not a string.
\<close>

record pylib =
  fromisoformat :: "string \<Rightarrow> datetime option"
  str_of :: "pyval \<Rightarrow> string"

definition py_str :: "pylib \<Rightarrow> pyval \<Rightarrow> string" where
  "py_str lib x = (case x of PStr s \<Rightarrow> s | _ \<Rightarrow> str_of lib x)"

definition replace_Z :: "string \<Rightarrow> string" where
  "replace_Z s = concat (map (\<lambda>c. if c = CHR ''Z'' then ''+00:00'' else [c]) s)"










text \<open>A library stand-in for examples: the ISO parser rejects everything.\<close>

abbreviation no_iso :: pylib where
  "no_iso \<equiv> \<lparr>fromisoformat = (\<lambda>s. None), str_of = (\<lambda>v. [])\<rparr>"



section \<open>Recency windows (eval\_windows.py and atlas\_source\_audit.py)\<close>

text \<open>
  Reading the system clock is an effect: the clock is a function from the number of
  earlier readings to the reading in microseconds since the epoch, and every function
  that reads it takes that number and returns it advanced. The difference of two
  \<^verbatim>\<open>datetime\<close>s is a \<^verbatim>\<open>timedelta\<close> in microseconds; subtracting a naive from an
  aware one raises \<^verbatim>\<open>TypeError\<close>. The quotient \<^verbatim>\<open>total_seconds()/3600.0\<close> is taken
  exactly: a boundary of 24, 48 or 72 hours is a whole number of microseconds that both
  divisions give without error, and rounding keeps the order of the differences around it.
\<close>

type_synonym clock = "nat \<Rightarrow> int"

definition now_utc :: "clock \<Rightarrow> nat \<Rightarrow> datetime \<times> nat" where
  "now_utc clk n = (utc_datetime (clk n), Suc n)"

definition dt_sub :: "datetime \<Rightarrow> datetime \<Rightarrow> pyerror + int" where
  "dt_sub a b =
     (case (utcoffset a, utcoffset b) of
        (None, None) \<Rightarrow> Inr (wall a - wall b)
      | (Some oa, Some ob) \<Rightarrow> Inr ((wall a - oa) - (wall b - ob))
      | _ \<Rightarrow> Inl TypeError)"

definition hours_ago :: "clock \<Rightarrow> nat \<Rightarrow> datetime \<Rightarrow> (pyerror + rat) \<times> nat" where
  "hours_ago clk n d =
     (let (now, n') = now_utc clk n
      in (case dt_sub now d of
            Inl e \<Rightarrow> Inl e
          | Inr us \<Rightarrow> Inr (of_int us / 1000000 / 3600), n'))"

definition bucket_0_24_48_72 ::
  "clock \<Rightarrow> nat \<Rightarrow> datetime option \<Rightarrow> (pyerror + string option) \<times> nat" where
  "bucket_0_24_48_72 clk n book_dt =
     (case book_dt of
        None \<Rightarrow> (Inr None, n)
      | Some d \<Rightarrow>
          (case hours_ago clk n d of
             (Inl e, n') \<Rightarrow> (Inl e, n')
           | (Inr h, n') \<Rightarrow>
               (Inr (if h < 0 then None
                     else if h \<le> 24 then Some ''24h''
                     else if h \<le> 48 then Some ''48h''
                     else if h \<le> 72 then Some ''72h''
                     else None), n')))"

text \<open>Truth of a value in a condition (\<^verbatim>\<open>if not x\<close>).\<close>

fun truthy :: "pyval \<Rightarrow> bool" where
  "truthy PNone = False"
| "truthy (PBool b) = b"
| "truthy (PInt i) = (i \<noteq> 0)"
| "truthy (PFloat f) = (f \<noteq> Finite 0)"
| "truthy (PStr s) = (s \<noteq> [])"
| "truthy (PBytes s) = (s \<noteq> [])"
| "truthy (PList xs) = (xs \<noteq> [])"
| "truthy (PDict kvs) = (kvs \<noteq> [])"
| "truthy (PDatetime d) = True"
| "truthy (PObjectId s) = True"

text \<open>
  \<^verbatim>\<open>parse_date_any(x)\<close>. \<open>ymd_of\<close> is the body of the two ten-character branches:
  three parts, each read by \<^verbatim>\<open>int\<close>, then the \<^verbatim>\<open>datetime\<close> constructor; any
  exception gives null. The ISO fallback returns what the parser returns, naive or aware.
\<close>

definition ymd_of :: "string \<Rightarrow> string \<Rightarrow> string \<Rightarrow> datetime option" where
  "ymd_of ys ms ds =
     (case (int_of_str ys, int_of_str ms, int_of_str ds) of
        (Inr y, Inr m, Inr d) \<Rightarrow>
          (case mk_wall y m d 0 0 0 of Inr w \<Rightarrow> Some (utc_datetime w) | Inl e \<Rightarrow> None)
      | _ \<Rightarrow> None)"

definition parse_date_any :: "pylib \<Rightarrow> pyval \<Rightarrow> datetime option" where
  "parse_date_any lib x =
     (if \<not> truthy x then None
      else (case x of
              PDatetime d \<Rightarrow> Some (ensure_aware d)
            | _ \<Rightarrow>
               (let s = py_str lib x
                in if length s = 10 \<and> s ! 4 = CHR ''-'' \<and> s ! 7 = CHR ''-'' then
                     (case split_on CHR ''-'' s of
                        [y, m, d] \<Rightarrow> ymd_of y m d
                      | _ \<Rightarrow> None)
                   else if length s = 10 \<and> s ! 2 = CHR ''/'' \<and> s ! 5 = CHR ''/'' then
                     (case split_on CHR ''/'' s of
                        [m, d, y] \<Rightarrow> ymd_of y m d
                      | _ \<Rightarrow> None)
                   else fromisoformat lib (replace_Z s))))"

text \<open>
  The result tables: per county, the three windows with a count and a sum each.
  \<open>bump\<close> is \<^verbatim>\<open>r[bucket]["count"] += 1; r[bucket]["sum"] += v\<close>, and \<open>results_bump\<close>
  the same through the \<^verbatim>\<open>defaultdict\<close>, which makes a county's table on first use.
\<close>

record bucket =
  count :: nat
  sum_bond :: pyfloat

type_synonym windows = "(string \<times> bucket) list"

definition empty_windows :: windows where
  "empty_windows =
     [(''24h'', \<lparr>count = 0, sum_bond = Finite 0\<rparr>),
      (''48h'', \<lparr>count = 0, sum_bond = Finite 0\<rparr>),
      (''72h'', \<lparr>count = 0, sum_bond = Finite 0\<rparr>)]"

definition bump :: "string \<Rightarrow> pyfloat \<Rightarrow> windows \<Rightarrow> windows" where
  "bump name v ws =
     map (\<lambda>(k, b). if k = name then (k, \<lparr>count = count b + 1, sum_bond = fadd (sum_bond b) v\<rparr>)
                    else (k, b)) ws"

definition results_bump ::
  "string \<Rightarrow> string \<Rightarrow> pyfloat \<Rightarrow> (string \<times> windows) list \<Rightarrow> (string \<times> windows) list" where
  "results_bump county name v results =
     dict_set results county
       (bump name v (case map_of results county of Some ws \<Rightarrow> ws | None \<Rightarrow> empty_windows))"

definition SIMPLE_COLL :: "(string \<times> string) list" where
  "SIMPLE_COLL =
     [(''brazoria'', ''simple_brazoria''), (''fortbend'', ''simple_fortbend''),
      (''galveston'', ''simple_galveston''), (''harris'', ''simple_harris''),
      (''jefferson'', ''simple_jefferson'')]"

text \<open>
  \<^verbatim>\<open>eval_simple(db)\<close>. The database is the list of documents each collection's cursor
  yields. \<open>simple_bond\<close> is the amount of one document; \<open>eval_simple_docs\<close> the loop over
  a cursor and \<open>eval_simple_colls\<close> the loop over the counties. An exception of the
  classifier is not caught and ends the evaluation.
\<close>

definition doc_get :: "(string \<times> pyval) list \<Rightarrow> string \<Rightarrow> pyval \<Rightarrow> pyval" where
  "doc_get doc k dflt = (case map_of doc k of Some v \<Rightarrow> v | None \<Rightarrow> dflt)"

definition simple_bond :: "(string \<times> pyval) list \<Rightarrow> pyfloat" where
  "simple_bond doc =
     (let bond0 = doc_get doc ''bond_amount'' PNone;
          bond = (if bond0 = PNone then doc_get doc ''bond'' (PInt 0) else bond0)
      in if bond \<noteq> PNone \<and> bond \<noteq> PStr []
         then (case py_float bond of Inr f \<Rightarrow> f | Inl e \<Rightarrow> Finite 0)
         else Finite 0)"

fun eval_simple_docs ::
  "pylib \<Rightarrow> clock \<Rightarrow> string \<Rightarrow> (string \<times> pyval) list list \<Rightarrow>
   (string \<times> windows) list \<times> nat \<Rightarrow> pyerror + (string \<times> windows) list \<times> nat" where
  "eval_simple_docs lib clk county [] (results, n) = Inr (results, n)"
| "eval_simple_docs lib clk county (doc # docs) (results, n) =
     (let bdate = parse_date_any lib (doc_get doc ''booking_date'' PNone)
      in case bucket_0_24_48_72 clk n bdate of
           (Inl e, n') \<Rightarrow> Inl e
         | (Inr None, n') \<Rightarrow> eval_simple_docs lib clk county docs (results, n')
         | (Inr (Some b), n') \<Rightarrow>
             eval_simple_docs lib clk county docs
               (results_bump county b (simple_bond doc) results, n'))"

fun eval_simple_colls ::
  "pylib \<Rightarrow> clock \<Rightarrow> (string \<Rightarrow> (string \<times> pyval) list list) \<Rightarrow> (string \<times> string) list \<Rightarrow>
   (string \<times> windows) list \<times> nat \<Rightarrow> pyerror + (string \<times> windows) list \<times> nat" where
  "eval_simple_colls lib clk db [] st = Inr st"
| "eval_simple_colls lib clk db ((county, coll_name) # colls) st =
     (case eval_simple_docs lib clk county (db coll_name) st of
        Inl e \<Rightarrow> Inl e
      | Inr st' \<Rightarrow> eval_simple_colls lib clk db colls st')"

definition eval_simple ::
  "pylib \<Rightarrow> clock \<Rightarrow> (string \<Rightarrow> (string \<times> pyval) list list) \<Rightarrow>
   pyerror + (string \<times> windows) list" where
  "eval_simple lib clk db =
     (case eval_simple_colls lib clk db SIMPLE_COLL ([], 0) of
        Inl e \<Rightarrow> Inl e
      | Inr (results, n) \<Rightarrow> Inr results)"

text \<open>
  \<^verbatim>\<open>window_bucket_counts(dates_and_bonds, now=None)\<close>. \<^verbatim>\<open>astimezone\<close> keeps the
  instant of an aware value and reads a naive one in the system's local zone, whose
  offset for a wall-clock reading is the parameter \<open>tzlocal\<close>; \<open>central\<close> is the offset
  of \<^verbatim>\<open>America/Chicago\<close> at an instant and \<open>t\<close> the clock's reading, used when no
  \<^verbatim>\<open>now\<close> is passed. The reference instant is far from the ends of the calendar, so
  the three subtractions stay in range.
\<close>

definition astimezone_utc :: "(int \<Rightarrow> int) \<Rightarrow> datetime \<Rightarrow> datetime" where
  "astimezone_utc tzlocal d =
     utc_datetime (case utcoffset d of
                     Some off \<Rightarrow> wall d - off
                   | None \<Rightarrow> wall d - tzlocal (wall d))"

definition hours :: "int \<Rightarrow> int" where
  "hours k = k * 3600 * 1000000"

definition or_zero :: "pyfloat option \<Rightarrow> pyfloat" where
  "or_zero b = (case b of None \<Rightarrow> Finite 0 | Some f \<Rightarrow> if f = Finite 0 then Finite 0 else f)"

fun window_loop ::
  "(int \<Rightarrow> int) \<Rightarrow> int \<Rightarrow> int \<Rightarrow> int \<Rightarrow> int \<Rightarrow> (datetime option \<times> pyfloat option) list \<Rightarrow>
   windows \<Rightarrow> windows" where
  "window_loop tzlocal now w24 w48 w72 [] buckets = buckets"
| "window_loop tzlocal now w24 w48 w72 ((d, b) # rest) buckets =
     (case d of
        None \<Rightarrow> window_loop tzlocal now w24 w48 w72 rest buckets
      | Some d' \<Rightarrow>
          (let du = wall (astimezone_utc tzlocal d')
           in if du > now then window_loop tzlocal now w24 w48 w72 rest buckets
              else if du \<ge> w24
                then window_loop tzlocal now w24 w48 w72 rest (bump ''24h'' (or_zero b) buckets)
              else if du \<ge> w48
                then window_loop tzlocal now w24 w48 w72 rest (bump ''48h'' (or_zero b) buckets)
              else if du \<ge> w72
                then window_loop tzlocal now w24 w48 w72 rest (bump ''72h'' (or_zero b) buckets)
              else window_loop tzlocal now w24 w48 w72 rest buckets))"

definition window_bucket_counts ::
  "(int \<Rightarrow> int) \<Rightarrow> (int \<Rightarrow> int) \<Rightarrow> int \<Rightarrow> (datetime option \<times> pyfloat option) list \<Rightarrow>
   datetime option \<Rightarrow> windows" where
  "window_bucket_counts tzlocal central t dates_and_bonds now =
     (let now' = (case now of
                    None \<Rightarrow> \<lparr>wall = t + central t, utcoffset = Some (central t)\<rparr>
                  | Some x \<Rightarrow> x);
          now_utc = wall (astimezone_utc tzlocal now');
          w24 = now_utc - hours 24;
          w48 = now_utc - hours 48;
          w72 = now_utc - hours 72
      in window_loop tzlocal now_utc w24 w48 w72 dates_and_bonds empty_windows)"

text \<open>
  Vocabulary: the elapsed hours from a timestamp to the reference instant, and the
  counts of a table in the order 24h, 48h, 72h.
\<close>

definition elapsed_hours :: "datetime \<Rightarrow> datetime \<Rightarrow> rat" where
  "elapsed_hours now t = of_int (instant now - instant t) / 3600000000"

definition counts :: "windows \<Rightarrow> nat list" where
  "counts ws = map (\<lambda>(k, b). count b) ws"

text \<open>A database for examples: two documents booked at the same instant.\<close>

definition same_booking :: "string \<Rightarrow> (string \<times> pyval) list list" where
  "same_booking coll_name =
     (if coll_name = ''simple_brazoria''
      then [[(''booking_date'', PStr ''2024-01-05''), (''bond'', PInt 100)],
            [(''booking_date'', PStr ''2024-01-05''), (''bond'', PInt 100)]]
      else [])"

definition ticking :: clock where
  "ticking n = 1704499200000000 + int n"

section \<open>Field statistics and the categorical verdict (atlas\_categorical\_field\_audit.py)\<close>

text \<open>\<^verbatim>\<open>type_name(v)\<close>; a \<^verbatim>\<open>datetime\<close> falls to \<^verbatim>\<open>type(v).__name__\<close>.\<close>

fun type_name :: "pyval \<Rightarrow> string" where
  "type_name PNone = ''null''"
| "type_name (PBool b) = ''bool''"
| "type_name (PInt i) = ''int''"
| "type_name (PFloat f) = ''float''"
| "type_name (PStr s) = ''str''"
| "type_name (PObjectId s) = ''objectid''"
| "type_name (PBytes s) = ''bytes''"
| "type_name (PList xs) = ''list''"
| "type_name (PDict kvs) = ''dict''"
| "type_name (PDatetime d) = ''datetime''"

text \<open>
  A \<^verbatim>\<open>Counter\<close> is an association list. The keys of the \<^verbatim>\<open>values\<close> counter
  (the field \<open>values_counter\<close> below) are the
  normalized values up to Python's equality of dictionary keys: \<open>True\<close>, \<open>1\<close> and \<open>1.0\<close>
  are one key, an \<^verbatim>\<open>ObjectId\<close> is counted as its string, two aware datetimes are equal
  when their instants are, and a NaN equals no key, itself included, so that each NaN
  makes an entry of its own. \<open>value_key\<close> is \<open>None\<close> for the kinds the loop skips.
\<close>

datatype pykey = KNone | KNum rat | KInf bool | KNaN | KStr string | KDatetime datetime

fun value_key :: "pyval \<Rightarrow> pykey option" where
  "value_key PNone = Some KNone"
| "value_key (PBool b) = Some (KNum (if b then 1 else 0))"
| "value_key (PInt i) = Some (KNum (of_int i))"
| "value_key (PFloat f) =
     Some (case f of Finite q \<Rightarrow> KNum q | PosInf \<Rightarrow> KInf True | NegInf \<Rightarrow> KInf False
           | NaN \<Rightarrow> KNaN)"
| "value_key (PStr s) = Some (KStr s)"
| "value_key (PObjectId s) = Some (KStr s)"
| "value_key (PDatetime d) =
     Some (KDatetime (case utcoffset d of None \<Rightarrow> d | Some off \<Rightarrow> utc_datetime (wall d - off)))"
| "value_key (PBytes s) = None"
| "value_key (PList xs) = None"
| "value_key (PDict kvs) = None"

fun counter_incr :: "(string \<times> nat) list \<Rightarrow> string \<Rightarrow> (string \<times> nat) list" where
  "counter_incr [] k = [(k, 1)]"
| "counter_incr ((k', c) # rest) k =
     (if k' = k then (k', c + 1) # rest else (k', c) # counter_incr rest k)"

definition counter_get :: "(string \<times> nat) list \<Rightarrow> string \<Rightarrow> nat" where
  "counter_get c k = (case map_of c k of Some n \<Rightarrow> n | None \<Rightarrow> 0)"

fun values_incr :: "(pykey \<times> nat) list \<Rightarrow> pykey \<Rightarrow> (pykey \<times> nat) list" where
  "values_incr [] k = [(k, 1)]"
| "values_incr ((k', c) # rest) k =
     (if k' = k \<and> k \<noteq> KNaN then (k', c + 1) # rest else (k', c) # values_incr rest k)"

record field_stat =
  types :: "(string \<times> nat) list"
  non_null_count :: nat
  docs_with_field :: nat
  values_counter :: "(pykey \<times> nat) list"
  too_many_uniques :: bool

definition new_stat :: field_stat where
  "new_stat = \<lparr>types = [], non_null_count = 0, docs_with_field = 0, values_counter = [],
               too_many_uniques = False\<rparr>"

text \<open>
  The body of the loop over \<^verbatim>\<open>flat.items()\<close> for one path and value; \<open>first\<close> tells
  that the path is not yet in \<^verbatim>\<open>seen_fields_this_doc\<close>.
\<close>

definition observe :: "field_stat \<Rightarrow> bool \<Rightarrow> pyval \<Rightarrow> field_stat" where
  "observe st first val =
     (let st1 = st\<lparr>types := counter_incr (types st) (type_name val)\<rparr>;
          st2 = (if val \<noteq> PNone then st1\<lparr>non_null_count := non_null_count st1 + 1\<rparr> else st1);
          st3 = (if first then st2\<lparr>docs_with_field := docs_with_field st2 + 1\<rparr> else st2)
      in if \<not> too_many_uniques st3 then
           (case value_key val of
              None \<Rightarrow> st3
            | Some norm_val \<Rightarrow>
                (let vs = values_incr (values_counter st3) norm_val
                 in if length vs > 5000 then st3\<lparr>values_counter := [], too_many_uniques := True\<rparr>
                    else st3\<lparr>values_counter := vs\<rparr>))
         else st3)"

type_synonym field_stats = "(string \<times> field_stat) list"

definition stat_of :: "field_stats \<Rightarrow> string \<Rightarrow> field_stat" where
  "stat_of fs path = (case map_of fs path of Some st \<Rightarrow> st | None \<Rightarrow> new_stat)"

fun scan_items :: "(string \<times> pyval) list \<Rightarrow> string list \<Rightarrow> field_stats \<Rightarrow> field_stats" where
  "scan_items [] seen fs = fs"
| "scan_items ((path, val) # rest) seen fs =
     (if path = [] then scan_items rest seen fs
      else scan_items rest (path # seen)
             (dict_set fs path (observe (stat_of fs path) (path \<notin> set seen) val)))"

fun scan_docs :: "pyval list \<Rightarrow> field_stats \<Rightarrow> field_stats" where
  "scan_docs [] fs = fs"
| "scan_docs (doc # docs) fs = scan_docs docs (scan_items (flatten doc []) [] fs)"

text \<open>
  The thresholds and the verdict of one field. A reason is kept as a tag with the
  numbers its text shows; the row's columns that depend on the database alone (index
  hints) or are a rendering (top values) are left out. The reported ratio is the exact
  ratio rounded half-even to six places (\<open>round6\<close>), where the code rounds the double;
  the rules use the unrounded ratio.
\<close>

record thresholds =
  max_unique :: int
  max_unique_ratio :: rat
  min_count :: int
  treat_small_int_as_categorical :: bool
  small_int_max_unique :: int

datatype reason =
    Too_Many_Uniques_To_Count
  | Bool_Field
  | Unique_Values_Le_Max nat int
  | Unique_Ratio_Le_Max rat rat
  | Small_Int_Code int
  | Overridden_By_Identifier_Name

record verdict =
  field :: string
  row_docs_with_field :: nat
  row_non_null_count :: nat
  row_types :: "(string \<times> nat) list"
  unique_values :: "nat option"
  unique_ratio :: "rat option"
  categorical :: bool
  reasons :: "reason list"

definition identifier_name :: "string \<Rightarrow> bool" where
  "identifier_name path \<longleftrightarrow> (\<exists>k \<in> set [''_id'', ''uuid'', ''guid'']. contains (lower path) k)"

definition round6 :: "rat \<Rightarrow> rat" where
  "round6 q = of_int (round_half_even (q * 1000000)) / 1000000"

definition decide :: "thresholds \<Rightarrow> string \<Rightarrow> field_stat \<Rightarrow> verdict" where
  "decide th path st =
     (let non_null = non_null_count st;
          uniq = (if \<not> too_many_uniques st then Some (length (values_counter st)) else None);
          ratio = (case uniq of
                     Some u \<Rightarrow> if non_null > 0 then Some (of_nat u / of_nat (max 1 non_null))
                               else None
                   | None \<Rightarrow> None);
          r0 = (if \<not> too_many_uniques st then [] else [Too_Many_Uniques_To_Count]);
          c1 = (int (counter_get (types st) ''bool'') \<ge> min_count th);
          r1 = (if c1 then r0 @ [Bool_Field] else r0);
          (c2, r2) =
            (case uniq of
               Some u \<Rightarrow>
                 if \<not> c1 then
                   (if int u \<le> max_unique th
                      then (True, r1 @ [Unique_Values_Le_Max u (max_unique th)])
                    else (case ratio of
                            Some q \<Rightarrow>
                              if q \<le> max_unique_ratio th
                                then (True, r1 @ [Unique_Ratio_Le_Max q (max_unique_ratio th)])
                              else (c1, r1)
                          | None \<Rightarrow> (c1, r1)))
                 else (c1, r1)
             | None \<Rightarrow> (c1, r1));
          (c3, r3) =
            (if \<not> c2 \<and> treat_small_int_as_categorical th then
               (case uniq of
                  Some u \<Rightarrow>
                    if int (counter_get (types st) ''int'') \<ge> min_count th
                       \<and> int u \<le> small_int_max_unique th
                      then (True, r2 @ [Small_Int_Code (small_int_max_unique th)])
                    else (c2, r2)
                | None \<Rightarrow> (c2, r2))
             else (c2, r2));
          (c4, r4) =
            (if identifier_name path
               then (False, if c3 then r3 @ [Overridden_By_Identifier_Name] else r3)
             else (c3, r3))
      in \<lparr>field = path, row_docs_with_field = docs_with_field st,
          row_non_null_count = non_null, row_types = types st,
          unique_values = uniq, unique_ratio = map_option round6 ratio,
          categorical = c4, reasons = r4\<rparr>)"

text \<open>
  \<^verbatim>\<open>analyze_collection\<close> over the documents \<^verbatim>\<open>scan_collection\<close> yields: one verdict
  per field, in the order the fields were first seen.
\<close>

definition analyze_collection :: "thresholds \<Rightarrow> pyval list \<Rightarrow> verdict list" where
  "analyze_collection th docs = map (\<lambda>(path, st). decide th path st) (scan_docs docs [])"

text \<open>The defaults of the command line.\<close>

definition default_thresholds :: thresholds where
  "default_thresholds =
     \<lparr>max_unique = 25, max_unique_ratio = 1 / 10, min_count = 25,
      treat_small_int_as_categorical = False, small_int_max_unique = 12\<rparr>"

text \<open>
  Vocabulary: the invariant of one field's statistics, and a run of documents with
  pairwise distinct integers in one field, for examples.
\<close>

definition capped :: "field_stat \<Rightarrow> bool" where
  "capped st \<longleftrightarrow>
     (if too_many_uniques st then values_counter st = [] else length (values_counter st) \<le> 5000)"

definition all_capped :: "field_stats \<Rightarrow> bool" where
  "all_capped fs \<longleftrightarrow> (\<forall>path st. map_of fs path = Some st \<longrightarrow> capped st)"

definition flagged :: "field_stats \<Rightarrow> string \<Rightarrow> bool" where
  "flagged fs path \<longleftrightarrow> (\<exists>st. map_of fs path = Some st \<and> too_many_uniques st)"

definition distinct_ints :: "nat \<Rightarrow> pyval list" where
  "distinct_ints n = map (\<lambda>i. PDict [(''f'', PInt (int i))]) [0..<n]"

definition counted :: "nat \<Rightarrow> field_stat" where
  "counted n =
     \<lparr>types = [(''int'', n)], non_null_count = n, docs_with_field = n,
      values_counter = map (\<lambda>i. (KNum (of_nat i), 1)) [0..<n], too_many_uniques = False\<rparr>"

section \<open>The source pass of eval\_windows.py\<close>

text \<open>
  \<^verbatim>\<open>pick_first(doc, keys, default)\<close>: the value under the first key that is present and
  is none of \<^verbatim>\<open>None\<close>, \<^verbatim>\<open>""\<close> and \<^verbatim>\<open>" "\<close>. A dotted key is followed through
  dictionaries only (\<open>follow\<close>).
\<close>

definition blank :: "pyval \<Rightarrow> bool" where
  "blank v \<longleftrightarrow> v = PNone \<or> v = PStr [] \<or> v = PStr '' ''"

fun follow :: "pyval \<Rightarrow> string list \<Rightarrow> pyval" where
  "follow val [] = val"
| "follow val (p # ps) =
     (case val of
        PDict kvs \<Rightarrow> (case map_of kvs p of Some v \<Rightarrow> follow v ps | None \<Rightarrow> PNone)
      | _ \<Rightarrow> PNone)"

fun pick_first :: "(string \<times> pyval) list \<Rightarrow> string list \<Rightarrow> pyval \<Rightarrow> pyval" where
  "pick_first doc [] dflt = dflt"
| "pick_first doc (k # keys) dflt =
     (if CHR ''.'' \<in> set k then
        (let val = follow (PDict doc) (split_on CHR ''.'' k)
         in if \<not> blank val then val else pick_first doc keys dflt)
      else (case map_of doc k of
              Some v \<Rightarrow> if \<not> blank v then v else pick_first doc keys dflt
            | None \<Rightarrow> pick_first doc keys dflt))"

text \<open>
  The amount \<^verbatim>\<open>eval_sources\<close> makes of the picked value \<^verbatim>\<open>bond_raw\<close>: every failure
  gives 0.0.
\<close>

definition source_bond :: "pyval \<Rightarrow> pyfloat" where
  "source_bond bond_raw =
     (case bond_raw of
        PStr t \<Rightarrow>
          (let s = filter (\<lambda>c. c \<noteq> CHR '','') (filter (\<lambda>c. c \<noteq> CHR ''$'') (strip t))
           in if s \<noteq> [] then (case float_of_str s of Inr f \<Rightarrow> f | Inl e \<Rightarrow> Finite 0)
              else Finite 0)
      | PDict kvs \<Rightarrow>
          (case map_of kvs ''$numberInt'' of
             Some v \<Rightarrow> (case py_float v of Inr f \<Rightarrow> f | Inl e \<Rightarrow> Finite 0)
           | None \<Rightarrow>
               (case map_of kvs ''$numberDouble'' of
                  Some v \<Rightarrow> (case py_float v of Inr f \<Rightarrow> f | Inl e \<Rightarrow> Finite 0)
                | None \<Rightarrow> Finite 0))
      | _ \<Rightarrow>
          (if bond_raw \<noteq> PNone \<and> bond_raw \<noteq> PStr []
           then (case py_float bond_raw of Inr f \<Rightarrow> f | Inl e \<Rightarrow> Finite 0)
           else Finite 0))"

section \<open>Properties of flattening\<close>

lemma dict_set_fresh: "k \<notin> fst ` set d \<Longrightarrow> dict_set d k v = d @ [(k, v)]"
  by (induction d) auto

lemma dict_extend_distinct:
  "distinct (map fst (d @ items)) \<Longrightarrow> dict_extend d items = d @ items"
proof (induction items arbitrary: d)
  case Nil
  then show ?case by simp
next
  case (Cons kv items)
  obtain k v where kv: "kv = (k, v)" by (cases kv)
  from Cons.prems kv have fresh: "k \<notin> fst ` set d" by auto
  from Cons.prems kv have "distinct (map fst ((d @ [(k, v)]) @ items))" by simp
  from Cons.IH[OF this] fresh kv show ?case by (simp add: dict_set_fresh)
qed

lemma dict_of_items_distinct: "distinct (map fst items) \<Longrightarrow> dict_of_items items = items"
  using dict_extend_distinct[of "[]" items] by (simp add: dict_of_items_def)

lemma flatten_eq_emitted:
  "distinct (map fst (emitted v p)) \<Longrightarrow> flatten v p = emitted v p"
  "distinct (map fst (emitted_dict kvs p)) \<Longrightarrow> flatten_dict kvs p = emitted_dict kvs p"
  "distinct (map fst (emitted_list xs i p)) \<Longrightarrow> flatten_list xs i p = emitted_list xs i p"
proof (induction v p and kvs p and xs i p rule: flatten_flatten_dict_flatten_list.induct)
qed (auto simp: dict_of_items_distinct)

lemma keys_dict_set: "fst ` set (dict_set d k v) = insert k (fst ` set d)"
  by (induction d k v rule: dict_set.induct) auto

lemma keys_dict_extend: "fst ` set (dict_extend d items) = fst ` set d \<union> fst ` set items"
  by (induction d items rule: dict_extend.induct) (auto simp: keys_dict_set)

lemma keys_dict_of_items: "fst ` set (dict_of_items items) = fst ` set items"
  by (simp add: dict_of_items_def keys_dict_extend)

lemma keys_flatten:
  "fst ` set (flatten v p) = fst ` set (emitted v p)"
  "fst ` set (flatten_dict kvs p) = fst ` set (emitted_dict kvs p)"
  "fst ` set (flatten_list xs i p) = fst ` set (emitted_list xs i p)"
proof (induction v p and kvs p and xs i p rule: flatten_flatten_dict_flatten_list.induct)
qed (auto simp: keys_dict_of_items image_Un)

lemma marker_emitted:
  "(q, ys) \<in> set (lists_at v p) \<Longrightarrow> (q @ ''[]'', PBool True) \<in> set (emitted v p)"
  "(q, ys) \<in> set (lists_at_dict kvs p) \<Longrightarrow> (q @ ''[]'', PBool True) \<in> set (emitted_dict kvs p)"
  "(q, ys) \<in> set (lists_at_list xs i p) \<Longrightarrow> (q @ ''[]'', PBool True) \<in> set (emitted_list xs i p)"
proof (induction v p and kvs p and xs i p rule: emitted_emitted_dict_emitted_list.induct)
qed auto

lemma segment_of_refl: "segment_of xs xs"
  unfolding segment_of_def by (rule exI[of _ "[]"], rule exI[of _ "[]"]) simp

lemma segment_of_left: "segment_of xs ys \<Longrightarrow> segment_of xs (ys @ zs)"
  unfolding segment_of_def by (metis append.assoc)

lemma segment_of_right: "segment_of xs ys \<Longrightarrow> segment_of xs (zs @ ys)"
  unfolding segment_of_def by (metis append.assoc)

lemma segment_of_set: "segment_of xs ys \<Longrightarrow> set xs \<subseteq> set ys"
  unfolding segment_of_def by auto

lemma segment_of_distinct_keys:
  "segment_of xs ys \<Longrightarrow> distinct (map fst ys) \<Longrightarrow> distinct (map fst xs)"
  unfolding segment_of_def by auto

lemma element_emitted_list:
  "i < length xs \<Longrightarrow>
     segment_of (emitted (xs ! i) (p @ ''['' @ str_nat (j + i) @ '']'')) (emitted_list xs j p)"
proof (induction xs arbitrary: i j)
  case Nil
  then show ?case by simp
next
  case (Cons x xs)
  show ?case
  proof (cases i)
    case 0
    then show ?thesis by (simp add: segment_of_left segment_of_refl)
  next
    case (Suc i')
    with Cons.prems have "i' < length xs" by simp
    from Cons.IH[OF this, of "Suc j"] Suc show ?thesis by (simp add: segment_of_right)
  qed
qed

lemma element_emitted:
  "(q, ys) \<in> set (lists_at v p) \<Longrightarrow> i < length ys \<Longrightarrow>
     segment_of (emitted (ys ! i) (q @ ''['' @ str_nat i @ '']'')) (emitted v p)"
  "(q, ys) \<in> set (lists_at_dict kvs p) \<Longrightarrow> i < length ys \<Longrightarrow>
     segment_of (emitted (ys ! i) (q @ ''['' @ str_nat i @ '']'')) (emitted_dict kvs p)"
  "(q, ys) \<in> set (lists_at_list xs j p) \<Longrightarrow> i < length ys \<Longrightarrow>
     segment_of (emitted (ys ! i) (q @ ''['' @ str_nat i @ '']'')) (emitted_list xs j p)"
proof (induction v p and kvs p and xs j p rule: emitted_emitted_dict_emitted_list.induct)
  case (2 xs p)
  from "2.prems" consider "q = p" "ys = xs" | "(q, ys) \<in> set (lists_at_list xs 0 p)" by auto
  then show ?case
  proof cases
    case 1
    with "2.prems" element_emitted_list[of i xs p 0] show ?thesis
      by (simp add: segment_of_left)
  next
    case 2
    from "2.IH"[OF this "2.prems"(2)] show ?thesis by (simp add: segment_of_left)
  qed
qed (auto simp: segment_of_left segment_of_right)

section \<open>Properties of the bond amount\<close>

lemma numeric_vals_map_filter:
  "numeric_vals ks vals = List.map_filter (extract_first_numeric ks) vals"
  by (induction vals) (auto simp: List.map_filter_simps split: option.splits)

lemma bond_amount_of_first:
  "(\<forall>f \<in> set pre. extracted ks doc f = []) \<Longrightarrow> extracted ks doc k \<noteq> [] \<Longrightarrow>
     bond_amount_of ks doc (pre @ k # post) = Some (float_sum (extracted ks doc k))"
  by (induction pre) (auto simp: extracted_def numeric_vals_map_filter Let_def)

lemma bond_amount_of_none:
  "(\<forall>f \<in> set fs. extracted ks doc f = []) \<Longrightarrow> bond_amount_of ks doc fs = None"
  by (induction fs) (auto simp: extracted_def numeric_vals_map_filter Let_def)

lemma bond_amount_of_Some:
  "bond_amount_of ks doc fs = Some a \<Longrightarrow>
     \<exists>k \<in> set fs. extracted ks doc k \<noteq> [] \<and> a = float_sum (extracted ks doc k)"
  by (induction fs) (auto simp: extracted_def numeric_vals_map_filter Let_def split: if_splits)

lemma galveston_bond_fields:
  "bond_fields ''galveston_events'' = [''total_bond''] @ ''bonds.amount'' # []"
  by (simp add: bond_fields_def BOND_FIELDS_BY_COLLECTION_def)

lemma two_bonds_total_bond: "extracted key_order two_bonds ''total_bond'' = []"
  by code_simp

lemma two_bonds_amounts: "extracted key_order two_bonds ''bonds.amount'' = [Finite 5, Finite 7]"
  by code_simp

lemma float_sum_5_7: "float_sum [Finite 5, Finite 7] = Finite 12"
  by (simp add: float_sum_def)

text \<open>
  C2. Money derivation walks the candidate fields of the collection in their declared
  order. At the first field whose resolved values yield at least one numeric it returns
  the sum of all numerics extracted for that field, whatever fields come after it; it
  returns null when no candidate field yields a numeric. The dotted walk fans out over
  the elements of a list met before the path is used up.
\<close>

theorem derive_bond_amount_first_yielding_field:
  "(\<forall>pre k post.
       bond_fields c = pre @ k # post
       \<and> (\<forall>f \<in> set pre. extracted ks doc f = []) \<and> extracted ks doc k \<noteq> []
       \<longrightarrow> derive_bond_amount ks c doc = Some (float_sum (extracted ks doc k)))
   \<and> ((\<forall>f \<in> set (bond_fields c). extracted ks doc f = [])
       \<longrightarrow> derive_bond_amount ks c doc = None)
   \<and> (\<forall>parts items idx. idx < length parts
       \<longrightarrow> walk parts (PList items) idx = concat (map (\<lambda>item. walk parts item idx) items))"
  by (simp add: derive_bond_amount_def bond_amount_of_first bond_amount_of_none)

theorem derive_bond_amount_first_yielding_field_witness:
  "bond_fields ''galveston_events'' = [''total_bond''] @ ''bonds.amount'' # []
   \<and> extracted key_order two_bonds ''total_bond'' = []
   \<and> extracted key_order two_bonds ''bonds.amount'' = [Finite 5, Finite 7]
   \<and> derive_bond_amount key_order ''galveston_events'' two_bonds = Some (Finite 12)
   \<and> bond_fields ''persons'' = []
   \<and> derive_bond_amount key_order ''persons'' two_bonds = None
   \<and> walk [''a''] (PList [PDict [(''a'', PInt 1)], PDict [(''a'', PInt 2)]]) 0
       = [PInt 1, PInt 2]"
proof -
  note main = derive_bond_amount_first_yielding_field
  have pre: "\<forall>f \<in> set [''total_bond'']. extracted key_order two_bonds f = []"
    by (simp add: two_bonds_total_bond)
  have hit: "extracted key_order two_bonds ''bonds.amount'' \<noteq> []"
    by (simp add: two_bonds_amounts)
  from main[of "''galveston_events''" key_order two_bonds] galveston_bond_fields pre hit
  have "derive_bond_amount key_order ''galveston_events'' two_bonds
          = Some (float_sum (extracted key_order two_bonds ''bonds.amount''))"
    by blast
  then have val: "derive_bond_amount key_order ''galveston_events'' two_bonds = Some (Finite 12)"
    by (simp add: two_bonds_amounts float_sum_5_7)
  have persons: "bond_fields ''persons'' = []"
    by (simp add: bond_fields_def BOND_FIELDS_BY_COLLECTION_def)
  then have none: "\<forall>f \<in> set (bond_fields ''persons''). extracted key_order two_bonds f = []"
    by simp
  with main[of "''persons''" key_order two_bonds]
  have absent: "derive_bond_amount key_order ''persons'' two_bonds = None"
    by blast
  have "(0::nat) < length [''a'']"
    by simp
  with main[of "''persons''" key_order two_bonds]
  have "walk [''a''] (PList [PDict [(''a'', PInt 1)], PDict [(''a'', PInt 2)]]) 0
       = concat (map (\<lambda>item. walk [''a''] item 0) [PDict [(''a'', PInt 1)], PDict [(''a'', PInt 2)]])"
    by blast
  then have fan: "walk [''a''] (PList [PDict [(''a'', PInt 1)], PDict [(''a'', PInt 2)]]) 0
       = [PInt 1, PInt 2]"
    by simp
  from galveston_bond_fields two_bonds_total_bond two_bonds_amounts val persons absent fan
  show ?thesis
    by (intro conjI)
qed

lemma fadd_nonneg: "nonneg a \<Longrightarrow> nonneg b \<Longrightarrow> nonneg (fadd a b)"
  by (cases a; cases b) auto

lemma foldl_fadd_nonneg:
  "nonneg a \<Longrightarrow> (\<forall>n \<in> set xs. nonneg n) \<Longrightarrow> nonneg (foldl fadd a xs)"
  by (induction xs arbitrary: a) (auto simp: fadd_nonneg)

lemma float_sum_nonneg: "(\<forall>n \<in> set xs. nonneg n) \<Longrightarrow> nonneg (float_sum xs)"
  by (simp add: float_sum_def foldl_fadd_nonneg)

text \<open>
  C8 (amended). The derived amount is null or a float; it is non-negative whenever every
  numeric extracted from the values of the collection's candidate fields is non-negative.
\<close>

theorem derive_bond_amount_nonneg:
  "derive_bond_amount ks c doc = Some a \<Longrightarrow>
     (\<forall>k \<in> set (bond_fields c). \<forall>n \<in> set (extracted ks doc k). nonneg n) \<Longrightarrow> nonneg a"
  unfolding derive_bond_amount_def
  by (drule bond_amount_of_Some) (auto simp: float_sum_nonneg)

theorem derive_bond_amount_nonneg_witness:
  "derive_bond_amount key_order ''galveston_events'' two_bonds = Some (Finite 12)
   \<and> bond_fields ''galveston_events'' = [''total_bond''] @ ''bonds.amount'' # []
   \<and> extracted key_order two_bonds ''total_bond'' = []
   \<and> extracted key_order two_bonds ''bonds.amount'' = [Finite 5, Finite 7]
   \<and> nonneg (Finite 5) \<and> nonneg (Finite 7)
   \<and> nonneg (Finite 12)"
proof -
  have val: "derive_bond_amount key_order ''galveston_events'' two_bonds = Some (Finite 12)"
    by code_simp
  have all: "\<forall>k \<in> set (bond_fields ''galveston_events'').
               \<forall>n \<in> set (extracted key_order two_bonds k). nonneg n"
    by (simp add: galveston_bond_fields two_bonds_total_bond two_bonds_amounts)
  have "nonneg (Finite 5)" and "nonneg (Finite 7)"
    by simp_all
  with derive_bond_amount_nonneg[OF val all] val galveston_bond_fields two_bonds_total_bond
    two_bonds_amounts
  show ?thesis
    by (intro conjI)
qed

text \<open>
  C8 as stated fails: the pattern of the extraction takes a sign, and nothing on the
  way to the sum rejects a negative number.
\<close>

theorem derive_bond_amount_negative:
  "derive_bond_amount key_order ''harris_bond'' (PDict [(''bond_amount'', PStr ''-500'')])
     = Some (Finite (- 500))
   \<and> \<not> nonneg (Finite (- 500))"
  by code_simp

section \<open>Properties of numeric extraction\<close>

lemma digitpart_has_digit: "digitpart s \<Longrightarrow> \<not> digitless s"
  by (induction s rule: digitpart.induct) (auto simp: digitless_def)

lemma digitless_takeWhile: "digitless s \<Longrightarrow> digitless (takeWhile P s)"
  unfolding digitless_def by (auto dest: set_takeWhileD)

lemma digitless_dropWhile: "digitless s \<Longrightarrow> digitless (dropWhile P s)"
  unfolding digitless_def by (auto dest: set_dropWhileD)

lemma digitless_tl: "digitless (c # s) \<Longrightarrow> digitless s"
  unfolding digitless_def by auto

lemma digitless_strip: "digitless s \<Longrightarrow> digitless (strip s)"
  unfolding strip_def digitless_def by (auto dest!: set_dropWhileD)

lemma digitless_split_sign: "digitless s \<Longrightarrow> digitless (snd (split_sign s))"
  unfolding split_sign_def digitless_def by (auto split: list.splits)

lemma mantissa_digitless: "digitless m \<Longrightarrow> mantissa m = None"
proof -
  assume d: "digitless m"
  have ip: "\<not> digitpart (takeWhile (\<lambda>c. c \<noteq> CHR ''.'') m)"
    using digitless_takeWhile[OF d] digitpart_has_digit by blast
  have "\<And>x fp. dropWhile (\<lambda>c. c \<noteq> CHR ''.'') m = x # fp \<Longrightarrow> \<not> digitpart fp"
    using digitless_dropWhile[OF d, of "\<lambda>c. c \<noteq> CHR ''.''"] digitless_tl digitpart_has_digit
    by metis
  with ip show ?thesis
    by (auto simp: mantissa_def Let_def split: list.splits)
qed

lemma floatnumber_digitless: "digitless s \<Longrightarrow> floatnumber s = None"
  by (simp add: floatnumber_def Let_def mantissa_digitless digitless_takeWhile)

lemma float_of_str_digitless:
  "digitless s \<Longrightarrow> \<not> spells_special s \<Longrightarrow> float_of_str s = Inl ValueError"
  using floatnumber_digitless[OF digitless_split_sign[OF digitless_strip, of s]]
  by (auto simp: float_of_str_def spells_special_def split: prod.splits)

lemma match_number_digitless: "digitless s \<Longrightarrow> match_number s = None"
  by (auto simp: match_number_def digitless_def Let_def split: list.splits dest: in_set_dropD)

lemma search_number_digitless: "digitless s \<Longrightarrow> search_number s = None"
  by (induction s) (auto simp: match_number_digitless dest: digitless_tl)

lemma no_digits_map_of: "no_digits_dict kvs \<Longrightarrow> map_of kvs k = Some v \<Longrightarrow> no_digits v"
  by (induction kvs) (auto split: if_splits)

lemma py_float_no_digits:
  "no_digits v \<Longrightarrow> payload_text v \<Longrightarrow> \<exists>e. py_float v = Inl e"
  by (cases v) (auto simp: float_of_str_digitless)

lemma wrapper_loop_none:
  "set ks \<subseteq> NUMBER_KEYS \<Longrightarrow> no_digits_dict kvs \<Longrightarrow> text_only (PDict kvs) \<Longrightarrow>
     wrapper_loop ks kvs = None"
proof (induction ks)
  case Nil
  then show ?case by simp
next
  case (Cons k ks)
  then have k: "k \<in> NUMBER_KEYS" and rest: "wrapper_loop ks kvs = None" by auto
  show ?case
  proof (cases "map_of kvs k")
    case None
    with rest show ?thesis by simp
  next
    case (Some v)
    with Cons.prems(3) k have "payload_text v" by (auto split: option.splits)
    moreover from Cons.prems(2) Some have "no_digits v" by (rule no_digits_map_of)
    ultimately obtain e where "py_float v = Inl e" using py_float_no_digits by blast
    with Some rest show ?thesis by simp
  qed
qed

lemma extract_no_digits:
  "set ks \<subseteq> NUMBER_KEYS \<Longrightarrow> no_digits v \<Longrightarrow> text_only v \<Longrightarrow> extract_first_numeric ks v = None"
  "set ks \<subseteq> NUMBER_KEYS \<Longrightarrow> no_digits_list xs \<Longrightarrow> text_only_list xs \<Longrightarrow>
     extract_first_of_list ks xs = None"
proof (induction ks v and ks xs rule: extract_first_numeric_extract_first_of_list.induct)
  case (1 ks kvs)
  then show ?case using wrapper_loop_none[of ks kvs] by simp
next
  case (3 ks s)
  then show ?case by (simp add: search_number_digitless)
qed (auto split: pyfloat.splits)

lemma wrapper_loop_single:
  "k \<in> set ks \<Longrightarrow> py_float v = Inr f \<Longrightarrow> wrapper_loop ks [(k, v)] = Some f"
  by (induction ks) auto

lemma float7: "float_of_str ''7'' = Inr (Finite 7)"
  by code_simp

lemma float25: "float_of_str ''2.5'' = Inr (Finite 2.5)"
  by code_simp

lemma extract_money_string: "extract_first_numeric ks (PStr ''$1,234.50'') = Some (Finite 1234.5)"
proof -
  have "search_number ''$1,234.50'' = Some ''1,234.50''" by code_simp
  moreover have "float_of_str (filter (\<lambda>c. c \<noteq> CHR '','') ''1,234.50'') = Inr (Finite 1234.5)"
    by code_simp
  ultimately show ?thesis by simp
qed

text \<open>
  C6 (amended). Whatever the iteration order of \<^verbatim>\<open>NUMBER_KEYS\<close>, numeric extraction
  maps the string \<open>$1,234.50\<close> to 1234.5, the wrapper \<open>{"$numberInt": "7"}\<close> to 7.0
  and the list \<open>["a", {"$numberDouble": "2.5"}]\<close> to 2.5. It maps every string without
  a digit to null, and more generally every input without a digit that holds no boolean
  or float and no numeric wrapper whose payload is a boolean, a float or a spelling of
  inf, infinity or nan.
\<close>

theorem extract_first_numeric_examples:
  "set ks = NUMBER_KEYS \<Longrightarrow>
     extract_first_numeric ks (PStr ''$1,234.50'') = Some (Finite 1234.5)
     \<and> extract_first_numeric ks (PDict [(''$numberInt'', PStr ''7'')]) = Some (Finite 7)
     \<and> extract_first_numeric ks (PList [PStr ''a'', PDict [(''$numberDouble'', PStr ''2.5'')]])
         = Some (Finite 2.5)
     \<and> (\<forall>s. digitless s \<longrightarrow> extract_first_numeric ks (PStr s) = None)
     \<and> (\<forall>v. no_digits v \<and> text_only v \<longrightarrow> extract_first_numeric ks v = None)"
proof (intro conjI allI impI)
  assume ks: "set ks = NUMBER_KEYS"
  show "extract_first_numeric ks (PStr ''$1,234.50'') = Some (Finite 1234.5)"
    by (rule extract_money_string)
  from ks have i: "''$numberInt'' \<in> set ks" and d: "''$numberDouble'' \<in> set ks"
    by (simp_all add: NUMBER_KEYS_def)
  from wrapper_loop_single[OF i, of "PStr ''7''"] float7
  show "extract_first_numeric ks (PDict [(''$numberInt'', PStr ''7'')]) = Some (Finite 7)"
    by simp
  have a: "search_number ''a'' = None" by code_simp
  from wrapper_loop_single[OF d, of "PStr ''2.5''"] float25 a
  show "extract_first_numeric ks (PList [PStr ''a'', PDict [(''$numberDouble'', PStr ''2.5'')]])
         = Some (Finite 2.5)"
    by simp
  fix s
  assume "digitless s"
  then show "extract_first_numeric ks (PStr s) = None"
    by (simp add: search_number_digitless)
next
  fix v
  assume ks: "set ks = NUMBER_KEYS" and "no_digits v \<and> text_only v"
  then show "extract_first_numeric ks v = None"
    using extract_no_digits(1)[of ks v] by simp
qed

theorem extract_first_numeric_examples_witness:
  "set key_order = NUMBER_KEYS
   \<and> extract_first_numeric key_order (PStr ''n/a'') = None
   \<and> extract_first_numeric key_order
        (PList [PStr ''n/a'', PNone, PDict [(''$numberInt'', PStr ''abc'')]]) = None
   \<and> extract_first_numeric key_order (PStr ''$1,234.50'') = Some (Finite 1234.5)
   \<and> extract_first_numeric key_order (PDict [(''$numberInt'', PStr ''7'')]) = Some (Finite 7)
   \<and> extract_first_numeric key_order (PList [PStr ''a'', PDict [(''$numberDouble'', PStr ''2.5'')]])
        = Some (Finite 2.5)"
proof -
  have ks: "set key_order = NUMBER_KEYS"
    by (auto simp: NUMBER_KEYS_def)
  have s: "digitless ''n/a''"
    by (simp add: digitless_def isdigit_def)
  have nd: "no_digits (PList [PStr ''n/a'', PNone, PDict [(''$numberInt'', PStr ''abc'')]])"
    by (simp add: digitless_def isdigit_def)
  have sp: "\<not> spells_special ''abc''"
    by (simp add: spells_special_def strip_def isspace_def split_sign_def lower_def lower_char_def)
  have tx: "text_only (PList [PStr ''n/a'', PNone, PDict [(''$numberInt'', PStr ''abc'')]])"
    using sp by (simp add: NUMBER_KEYS_def)
  note main = extract_first_numeric_examples[OF ks]
  from main s have a: "extract_first_numeric key_order (PStr ''n/a'') = None"
    by blast
  from main nd tx have b: "extract_first_numeric key_order
        (PList [PStr ''n/a'', PNone, PDict [(''$numberInt'', PStr ''abc'')]]) = None"
    by blast
  from main ks a b show ?thesis
    by (intro conjI) blast+
qed

text \<open>
  C6 as stated fails on inputs without a digit that Python reads as numbers: the boolean
  \<open>True\<close> is an \<^verbatim>\<open>int\<close>, and \<^verbatim>\<open>float("inf")\<close> is a float.
\<close>

theorem extract_first_numeric_digitless_nonnull:
  "no_digits (PBool True)
   \<and> extract_first_numeric key_order
        (PBool True) = Some (Finite 1)
   \<and> no_digits (PDict [(''$numberDouble'', PStr ''inf'')])
   \<and> extract_first_numeric key_order
        (PDict [(''$numberDouble'', PStr ''inf'')]) = Some PosInf"
proof -
  have "float_of_str ''inf'' = Inr PosInf" by code_simp
  then show ?thesis by (simp add: digitless_def isdigit_def)
qed

section \<open>Properties of temporal extraction and timestamp derivation\<close>














section \<open>Properties of the window classifier\<close>

text \<open>
  C1. For every timezone-aware timestamp \<open>t\<close> and reference instant, the classifier of
  eval\_windows.py returns \<open>24h\<close> exactly when the elapsed hours are between 0 and 24
  inclusive, \<open>48h\<close> exactly when they are above 24 and at most 48, \<open>72h\<close> exactly when
  they are above 48 and at most 72, and no bucket exactly when \<open>t\<close> is in the future or
  older than 72 hours. The bucket loop of atlas\_source\_audit.py counts a timestamp in
  the same single bucket, or in none.
\<close>

theorem window_classifier:
  assumes "utcoffset t = Some off" and "utcoffset now = Some off'"
  shows "(fst (bucket_0_24_48_72 clk n (Some t)) = Inr (Some ''24h'')
            \<longleftrightarrow> 0 \<le> elapsed_hours (utc_datetime (clk n)) t
                \<and> elapsed_hours (utc_datetime (clk n)) t \<le> 24)
       \<and> (fst (bucket_0_24_48_72 clk n (Some t)) = Inr (Some ''48h'')
            \<longleftrightarrow> 24 < elapsed_hours (utc_datetime (clk n)) t
                \<and> elapsed_hours (utc_datetime (clk n)) t \<le> 48)
       \<and> (fst (bucket_0_24_48_72 clk n (Some t)) = Inr (Some ''72h'')
            \<longleftrightarrow> 48 < elapsed_hours (utc_datetime (clk n)) t
                \<and> elapsed_hours (utc_datetime (clk n)) t \<le> 72)
       \<and> (fst (bucket_0_24_48_72 clk n (Some t)) = Inr None
            \<longleftrightarrow> elapsed_hours (utc_datetime (clk n)) t < 0
                \<or> 72 < elapsed_hours (utc_datetime (clk n)) t)
       \<and> counts (window_bucket_counts tzlocal central t0 [(Some t, b)] (Some now))
           = (if 0 \<le> elapsed_hours now t \<and> elapsed_hours now t \<le> 24 then [1, 0, 0]
              else if 24 < elapsed_hours now t \<and> elapsed_hours now t \<le> 48 then [0, 1, 0]
              else if 48 < elapsed_hours now t \<and> elapsed_hours now t \<le> 72 then [0, 0, 1]
              else [0, 0, 0])"
proof -
  have win: "counts (window_bucket_counts tzlocal central t0 [(Some t, b)] (Some now))
           = (if 0 \<le> elapsed_hours now t \<and> elapsed_hours now t \<le> 24 then [1, 0, 0]
              else if 24 < elapsed_hours now t \<and> elapsed_hours now t \<le> 48 then [0, 1, 0]
              else if 48 < elapsed_hours now t \<and> elapsed_hours now t \<le> 72 then [0, 0, 1]
              else [0, 0, 0])"
    using assms
    by (auto simp: window_bucket_counts_def astimezone_utc_def elapsed_hours_def instant_def
        utc_datetime_def Let_def hours_def counts_def bump_def empty_windows_def field_simps)
  from assms(1) win show ?thesis
    by (auto simp: bucket_0_24_48_72_def hours_ago_def now_utc_def dt_sub_def elapsed_hours_def
        instant_def utc_datetime_def Let_def)
qed

theorem window_classifier_witness:
  "utcoffset (utc_datetime 1704412800000000) = Some 0
   \<and> utcoffset (utc_datetime 1704499200000000) = Some 0
   \<and> elapsed_hours (utc_datetime (ticking 0)) (utc_datetime 1704412800000000) = 24
   \<and> fst (bucket_0_24_48_72 ticking 0 (Some (utc_datetime 1704412800000000))) = Inr (Some ''24h'')
   \<and> 24 < elapsed_hours (utc_datetime (ticking 1)) (utc_datetime 1704412800000000)
   \<and> fst (bucket_0_24_48_72 ticking 1 (Some (utc_datetime 1704412800000000))) = Inr (Some ''48h'')
   \<and> elapsed_hours (utc_datetime (ticking 0)) (utc_datetime 1704499260000000) < 0
   \<and> fst (bucket_0_24_48_72 ticking 0 (Some (utc_datetime 1704499260000000))) = Inr None
   \<and> counts (window_bucket_counts (\<lambda>w. 0) (\<lambda>t. 0) 0
               [(Some (utc_datetime 1704412800000000), None)]
               (Some (utc_datetime 1704499200000000))) = [1, 0, 0]"
proof -
  have a: "utcoffset (utc_datetime 1704412800000000) = Some 0"
    and a': "utcoffset (utc_datetime 1704499260000000) = Some 0"
    and b: "utcoffset (utc_datetime 1704499200000000) = Some 0"
    by (simp_all add: utc_datetime_def)
  have h0: "elapsed_hours (utc_datetime (ticking 0)) (utc_datetime 1704412800000000) = 24"
    by (simp add: elapsed_hours_def instant_def utc_datetime_def ticking_def)
  have h1: "24 < elapsed_hours (utc_datetime (ticking 1)) (utc_datetime 1704412800000000)"
    and h1': "elapsed_hours (utc_datetime (ticking 1)) (utc_datetime 1704412800000000) \<le> 48"
    by (simp_all add: elapsed_hours_def instant_def utc_datetime_def ticking_def)
  have h2: "elapsed_hours (utc_datetime (ticking 0)) (utc_datetime 1704499260000000) < 0"
    by (simp add: elapsed_hours_def instant_def utc_datetime_def ticking_def)
  have h3: "elapsed_hours (utc_datetime 1704499200000000) (utc_datetime 1704412800000000) = 24"
    by (simp add: elapsed_hours_def instant_def utc_datetime_def)
  from window_classifier[OF a b, of ticking 0] h0
  have r0: "fst (bucket_0_24_48_72 ticking 0 (Some (utc_datetime 1704412800000000)))
              = Inr (Some ''24h'')"
    by simp
  from window_classifier[OF a b, of ticking 1] h1 h1'
  have r1: "fst (bucket_0_24_48_72 ticking 1 (Some (utc_datetime 1704412800000000)))
              = Inr (Some ''48h'')"
    by simp
  from window_classifier[OF a' b, of ticking 0] h2
  have r2: "fst (bucket_0_24_48_72 ticking 0 (Some (utc_datetime 1704499260000000))) = Inr None"
    by simp
  from window_classifier[OF a b, of _ _ "\<lambda>w. 0" "\<lambda>t. 0" 0 None] h3
  have r3: "counts (window_bucket_counts (\<lambda>w. 0) (\<lambda>t. 0) 0
               [(Some (utc_datetime 1704412800000000), None)]
               (Some (utc_datetime 1704499200000000))) = [1, 0, 0]"
    by simp
  from a b h0 r0 h1 r1 h2 r2 r3 show ?thesis
    by (intro conjI)
qed

text \<open>
  In \<^verbatim>\<open>window_bucket_counts\<close> the reference instant is fixed before the loop: two
  entries with the same timestamp are counted in the same bucket wherever they stand.
\<close>

lemma window_bucket_counts_same_timestamp:
  "counts (window_bucket_counts tzlocal central t0 [(Some t, b1), (Some t, b2)] now)
     \<in> {[2, 0, 0], [0, 2, 0], [0, 0, 2], [0, 0, 0]}"
  by (simp add: window_bucket_counts_def Let_def counts_def bump_def empty_windows_def)

text \<open>
  C4 fails in eval\_windows.py: \<^verbatim>\<open>hours_ago\<close> reads the clock anew for every document.
  Two documents booked at the same instant, the first classified exactly 24 hours after
  it and the second a microsecond later, are counted in different windows of one pass.
\<close>

theorem eval_simple_now_moves:
  "same_booking ''simple_brazoria''
     = [[(''booking_date'', PStr ''2024-01-05''), (''bond'', PInt 100)],
        [(''booking_date'', PStr ''2024-01-05''), (''bond'', PInt 100)]]
   \<and> eval_simple no_iso ticking same_booking
     = Inr [(''brazoria'',
             [(''24h'', \<lparr>count = 1, sum_bond = Finite 100\<rparr>),
              (''48h'', \<lparr>count = 1, sum_bond = Finite 100\<rparr>),
              (''72h'', \<lparr>count = 0, sum_bond = Finite 0\<rparr>)])]"
  by code_simp

section \<open>Properties of the field statistics and the verdict\<close>

lemma map_of_dict_set: "map_of (dict_set d k v) = (map_of d)(k \<mapsto> v)"
  by (induction d k v rule: dict_set.induct) (auto simp: fun_eq_iff)

lemma observe_flagged:
  "too_many_uniques st \<Longrightarrow>
     too_many_uniques (observe st first v) \<and> values_counter (observe st first v) = values_counter st"
  by (simp add: observe_def Let_def)

lemma observe_crossing:
  "\<not> too_many_uniques st \<Longrightarrow> value_key v = Some k \<Longrightarrow>
   5000 < length (values_incr (values_counter st) k) \<Longrightarrow>
     too_many_uniques (observe st first v) \<and> values_counter (observe st first v) = []"
  by (simp add: observe_def Let_def)

lemma observe_capped: "capped st \<Longrightarrow> capped (observe st first v)"
  by (auto simp: capped_def observe_def Let_def split: option.splits if_splits)

lemma new_stat_capped: "capped new_stat"
  by (simp add: capped_def new_stat_def)

lemma stat_of_capped: "all_capped fs \<Longrightarrow> capped (stat_of fs path)"
  by (auto simp: all_capped_def stat_of_def new_stat_capped split: option.splits)

lemma scan_items_capped: "all_capped fs \<Longrightarrow> all_capped (scan_items items seen fs)"
proof (induction items seen fs rule: scan_items.induct)
  case (1 seen fs)
  then show ?case by simp
next
  case (2 path val rest seen fs)
  show ?case
  proof (cases "path = []")
    case True
    with 2 show ?thesis by simp
  next
    case False
    have "all_capped (dict_set fs path (observe (stat_of fs path) (path \<notin> set seen) val))"
      using "2.prems" observe_capped[OF stat_of_capped[OF "2.prems"], of path]
      by (auto simp: all_capped_def map_of_dict_set)
    with 2 False show ?thesis by simp
  qed
qed

lemma scan_items_flagged: "flagged fs p \<Longrightarrow> flagged (scan_items items seen fs) p"
proof (induction items seen fs rule: scan_items.induct)
  case (1 seen fs)
  then show ?case by simp
next
  case (2 path val rest seen fs)
  show ?case
  proof (cases "path = []")
    case True
    with 2 show ?thesis by simp
  next
    case False
    have "flagged (dict_set fs path (observe (stat_of fs path) (path \<notin> set seen) val)) p"
      using "2.prems" observe_flagged
      by (auto simp: flagged_def map_of_dict_set stat_of_def)
    with 2 False show ?thesis by simp
  qed
qed

lemma scan_docs_capped: "all_capped fs \<Longrightarrow> all_capped (scan_docs docs fs)"
  by (induction docs arbitrary: fs) (auto simp: scan_items_capped)

lemma scan_docs_flagged: "flagged fs p \<Longrightarrow> flagged (scan_docs docs fs) p"
  by (induction docs arbitrary: fs) (auto simp: scan_items_flagged)

lemma scan_docs_append: "scan_docs (a @ b) fs = scan_docs b (scan_docs a fs)"
  by (induction a arbitrary: fs) auto

lemma all_capped_empty: "all_capped []"
  by (simp add: all_capped_def)

lemma decide_flagged:
  "too_many_uniques st \<Longrightarrow>
     unique_values (decide th path st) = None
     \<and> unique_ratio (decide th path st) = None
     \<and> categorical (decide th path st)
         = (min_count th \<le> int (counter_get (types st) ''bool'') \<and> \<not> identifier_name path)
     \<and> (\<forall>vs. decide th path (st\<lparr>values_counter := vs\<rparr>) = decide th path st)"
  by (simp add: decide_def Let_def)

text \<open>
  C9. Take the statistics of a field at any point of a run. While the flag is not set
  at most 5000 distinct values are tracked, and the observation that makes them more
  than 5000 sets the flag and clears the tracked values. Once the flag is set the
  tracked values are empty, and after any further documents the flag is still set and
  the values still empty; the verdict of such a field has a null unique count and a null
  unique ratio, and is categorical exactly when the boolean rule fires and the name is
  not an identifier's, whatever the value counter holds.
\<close>

theorem too_many_uniques_permanent:
  "map_of (scan_docs docs1 []) path = Some st \<Longrightarrow>
     (\<not> too_many_uniques st \<longrightarrow> length (values_counter st) \<le> 5000)
     \<and> (\<forall>v k first.
           \<not> too_many_uniques st \<and> value_key v = Some k
           \<and> 5000 < length (values_incr (values_counter st) k)
           \<longrightarrow> too_many_uniques (observe st first v) \<and> values_counter (observe st first v) = [])
     \<and> (too_many_uniques st \<longrightarrow>
           values_counter st = []
           \<and> (\<exists>st'. map_of (scan_docs (docs1 @ docs2) []) path = Some st'
                 \<and> too_many_uniques st' \<and> values_counter st' = []
                 \<and> unique_values (decide th path st') = None
                 \<and> unique_ratio (decide th path st') = None
                 \<and> categorical (decide th path st')
                     = (min_count th \<le> int (counter_get (types st') ''bool'')
                        \<and> \<not> identifier_name path)
                 \<and> (\<forall>vs. decide th path (st'\<lparr>values_counter := vs\<rparr>) = decide th path st')))"
proof (intro conjI impI allI)
  assume run: "map_of (scan_docs docs1 []) path = Some st"
  have cap1: "all_capped (scan_docs docs1 [])"
    by (rule scan_docs_capped[OF all_capped_empty])
  with run have c: "capped st"
    by (simp add: all_capped_def)
  {
    assume "\<not> too_many_uniques st"
    with c show "length (values_counter st) \<le> 5000"
      by (simp add: capped_def)
  }
  {
    fix v k first
    assume "\<not> too_many_uniques st \<and> value_key v = Some k
            \<and> 5000 < length (values_incr (values_counter st) k)"
    then show "too_many_uniques (observe st first v)"
      and "values_counter (observe st first v) = []"
      using observe_crossing[of st v k first] by simp_all
  }
  assume flag: "too_many_uniques st"
  with c show "values_counter st = []"
    by (simp add: capped_def)
  from run flag have "flagged (scan_docs docs1 []) path"
    by (auto simp: flagged_def)
  then have "flagged (scan_docs (docs1 @ docs2) []) path"
    by (simp add: scan_docs_append scan_docs_flagged)
  then obtain st' where st': "map_of (scan_docs (docs1 @ docs2) []) path = Some st'"
    and flag': "too_many_uniques st'"
    by (auto simp: flagged_def)
  have "all_capped (scan_docs (docs1 @ docs2) [])"
    by (rule scan_docs_capped[OF all_capped_empty])
  with st' flag' have "values_counter st' = []"
    by (auto simp: all_capped_def capped_def)
  with st' flag' decide_flagged[OF flag', of th path]
  show "\<exists>st'. map_of (scan_docs (docs1 @ docs2) []) path = Some st'
                 \<and> too_many_uniques st' \<and> values_counter st' = []
                 \<and> unique_values (decide th path st') = None
                 \<and> unique_ratio (decide th path st') = None
                 \<and> categorical (decide th path st')
                     = (min_count th \<le> int (counter_get (types st') ''bool'')
                        \<and> \<not> identifier_name path)
                 \<and> (\<forall>vs. decide th path (st'\<lparr>values_counter := vs\<rparr>) = decide th path st')"
    by blast
qed

lemma values_incr_fresh:
  "k \<notin> fst ` set vs \<Longrightarrow> values_incr vs k = vs @ [(k, 1)]"
  by (induction vs) auto

lemma values_incr_next:
  "values_incr (map (\<lambda>i. (KNum (of_nat i), 1)) [0..<n]) (KNum (of_nat n))
     = map (\<lambda>i. (KNum (of_nat i), 1)) [0..<Suc n]"
  by (subst values_incr_fresh) auto

lemma scan_first: "scan_docs (distinct_ints (Suc 0)) [] = [(''f'', counted (Suc 0))]"
  by (simp add: distinct_ints_def dict_of_items_def stat_of_def new_stat_def observe_def
      counted_def Let_def)

lemma observe_counted:
  "0 < n \<Longrightarrow> n < 5000 \<Longrightarrow> observe (counted n) True (PInt (int n)) = counted (Suc n)"
  using values_incr_next[of n]
  by (simp add: observe_def counted_def Let_def del: upt_Suc)

lemma scan_below_cap:
  "0 < n \<Longrightarrow> n \<le> 5000 \<Longrightarrow> scan_docs (distinct_ints n) [] = [(''f'', counted n)]"
proof (induction n)
  case 0
  then show ?case by simp
next
  case (Suc n)
  show ?case
  proof (cases "n = 0")
    case True
    then show ?thesis by (simp add: scan_first)
  next
    case False
    with Suc have ih: "scan_docs (distinct_ints n) [] = [(''f'', counted n)]" and n: "0 < n" "n < 5000"
      by simp_all
    have "distinct_ints (Suc n) = distinct_ints n @ [PDict [(''f'', PInt (int n))]]"
      by (simp add: distinct_ints_def)
    then show ?thesis
      using ih observe_counted[OF n]
      by (simp add: scan_docs_append dict_of_items_def stat_of_def)
  qed
qed

lemma observe_at_cap:
  "observe (counted 5000) True (PInt 5000)
     = \<lparr>types = [(''int'', 5001)], non_null_count = 5001, docs_with_field = 5001,
        values_counter = [], too_many_uniques = True\<rparr>"
  using values_incr_next[of 5000]
  by (simp add: observe_def counted_def Let_def del: upt_Suc)

lemma distinct_ints_Suc:
  "distinct_ints (Suc n) = distinct_ints n @ [PDict [(''f'', PInt (int n))]]"
  by (simp add: distinct_ints_def)

lemma scan_one_more:
  "scan_docs (distinct_ints (Suc n)) []
     = scan_items [(''f'', PInt (int n))] [] (scan_docs (distinct_ints n) [])"
  by (simp add: distinct_ints_Suc scan_docs_append dict_of_items_def)

lemma counted_crossing_length:
  "length (values_incr (values_counter (counted n)) (KNum (of_nat n))) = Suc n"
  using values_incr_next[of n] by (simp add: counted_def del: upt_Suc)

lemma counted_not_flagged: "\<not> too_many_uniques (counted n)"
  by (simp add: counted_def)

lemma scan_crossing:
  "scan_docs (distinct_ints 5001) []
     = [(''f'', \<lparr>types = [(''int'', 5001)], non_null_count = 5001, docs_with_field = 5001,
                 values_counter = [], too_many_uniques = True\<rparr>)]"
proof -
  have "scan_docs (distinct_ints 5000) [] = [(''f'', counted 5000)]"
    by (rule scan_below_cap) simp_all
  with scan_one_more[of 5000] observe_at_cap
  have "scan_docs (distinct_ints (Suc 5000)) []
     = [(''f'', \<lparr>types = [(''int'', 5001)], non_null_count = 5001, docs_with_field = 5001,
                 values_counter = [], too_many_uniques = True\<rparr>)]"
    by (simp add: stat_of_def)
  then show ?thesis by simp
qed

theorem too_many_uniques_permanent_witness:
  "map_of (scan_docs (distinct_ints 5000) []) ''f'' = Some (counted 5000)
   \<and> \<not> too_many_uniques (counted 5000)
   \<and> value_key (PInt 5000) = Some (KNum 5000)
   \<and> 5000 < length (values_incr (values_counter (counted 5000)) (KNum 5000))
   \<and> too_many_uniques (observe (counted 5000) True (PInt 5000))
   \<and> values_counter (observe (counted 5000) True (PInt 5000)) = []
   \<and> map_of (scan_docs (distinct_ints 5001) []) ''f''
       = Some \<lparr>types = [(''int'', 5001)], non_null_count = 5001, docs_with_field = 5001,
               values_counter = [], too_many_uniques = True\<rparr>
   \<and> (\<exists>st'. map_of (scan_docs (distinct_ints 5001 @ [PDict [(''f'', PInt 7)]]) []) ''f''
               = Some st'
             \<and> too_many_uniques st' \<and> values_counter st' = []
             \<and> unique_values (decide default_thresholds ''f'' st') = None
             \<and> unique_ratio (decide default_thresholds ''f'' st') = None)"
proof -
  have below: "map_of (scan_docs (distinct_ints 5000) []) ''f'' = Some (counted 5000)"
    by (subst scan_below_cap) simp_all
  have nf: "\<not> too_many_uniques (counted 5000)"
    by (rule counted_not_flagged)
  have key: "value_key (PInt 5000) = Some (KNum 5000)"
    by simp
  have len: "5000 < length (values_incr (values_counter (counted 5000)) (KNum 5000))"
    using counted_crossing_length[of 5000] by simp
  from too_many_uniques_permanent[OF below] nf key len
  have step: "too_many_uniques (observe (counted 5000) True (PInt 5000))
              \<and> values_counter (observe (counted 5000) True (PInt 5000)) = []"
    by blast
  have over: "map_of (scan_docs (distinct_ints 5001) []) ''f''
       = Some \<lparr>types = [(''int'', 5001)], non_null_count = 5001, docs_with_field = 5001,
               values_counter = [], too_many_uniques = True\<rparr>"
    by (simp add: scan_crossing)
  from too_many_uniques_permanent[OF over, of "[PDict [(''f'', PInt 7)]]" default_thresholds]
  have later: "\<exists>st'. map_of (scan_docs (distinct_ints 5001 @ [PDict [(''f'', PInt 7)]]) []) ''f''
               = Some st'
             \<and> too_many_uniques st' \<and> values_counter st' = []
             \<and> unique_values (decide default_thresholds ''f'' st') = None
             \<and> unique_ratio (decide default_thresholds ''f'' st') = None"
    by auto
  from below nf key len step over later show ?thesis
    by (intro conjI) simp_all
qed

text \<open>
  The boolean rule and the small-integer rule ask for \<^verbatim>\<open>min_count\<close> occurrences.
\<close>

lemma decide_gated_rules:
  "(Bool_Field \<in> set (reasons (decide th path st))
      \<longrightarrow> min_count th \<le> int (counter_get (types st) ''bool''))
   \<and> (Small_Int_Code k \<in> set (reasons (decide th path st))
      \<longrightarrow> min_count th \<le> int (counter_get (types st) ''int''))"
  by (auto simp: decide_def Let_def split: option.splits if_splits prod.splits)

text \<open>
  C7 fails on the code: the unique-count and unique-ratio rules do not ask for
  \<^verbatim>\<open>min_count\<close> occurrences. With the default thresholds (\<^verbatim>\<open>min_count\<close> 25), a
  field seen once in a single document is decided categorical by the unique-count rule.
\<close>

theorem analyze_collection_ignores_min_count:
  "analyze_collection default_thresholds [PDict [(''status'', PStr ''open'')]]
     = [\<lparr>field = ''status'', row_docs_with_field = 1, row_non_null_count = 1,
         row_types = [(''str'', 1)], unique_values = Some 1, unique_ratio = Some 1,
         categorical = True, reasons = [Unique_Values_Le_Max 1 25]\<rparr>]
   \<and> min_count default_thresholds = 25"
  by code_simp

section \<open>The source pass of eval\_windows.py against the derivations above\<close>

text \<open>
  \<^verbatim>\<open>parse_date_any\<close> reads the two date forms as \<^verbatim>\<open>_to_datetime\<close> does; an epoch
  number and a sentinel are left to the ISO parser.
\<close>

lemma parse_date_any_examples:
  "parse_date_any lib (PStr ''2024-01-05'') = Some (utc_datetime 1704412800000000)
   \<and> parse_date_any lib (PStr ''01/05/2024'') = Some (utc_datetime 1704412800000000)
   \<and> parse_date_any lib (PStr ''BLACK'') = fromisoformat lib ''BLACK''"
proof (intro conjI)
  have "ymd_of ''2024'' ''01'' ''05'' = Some (utc_datetime 1704412800000000)"
    by code_simp
  moreover have "split_on CHR ''-'' ''2024-01-05'' = [''2024'', ''01'', ''05'']"
    and "split_on CHR ''/'' ''01/05/2024'' = [''01'', ''05'', ''2024'']"
    by simp_all
  ultimately show "parse_date_any lib (PStr ''2024-01-05'') = Some (utc_datetime 1704412800000000)"
    and "parse_date_any lib (PStr ''01/05/2024'') = Some (utc_datetime 1704412800000000)"
    by (simp_all add: parse_date_any_def py_str_def)
  show "parse_date_any lib (PStr ''BLACK'') = fromisoformat lib ''BLACK''"
    by (simp add: parse_date_any_def py_str_def replace_Z_def)
qed

lemma parse_date_any_epoch:
  "parse_date_any lib (PInt 1704412800000)
     = (let s = str_of lib (PInt 1704412800000)
        in if length s = 10 \<and> s ! 4 = CHR ''-'' \<and> s ! 7 = CHR ''-'' then
             (case split_on CHR ''-'' s of [y, m, d] \<Rightarrow> ymd_of y m d | _ \<Rightarrow> None)
           else if length s = 10 \<and> s ! 2 = CHR ''/'' \<and> s ! 5 = CHR ''/'' then
             (case split_on CHR ''/'' s of [m, d, y] \<Rightarrow> ymd_of y m d | _ \<Rightarrow> None)
           else fromisoformat lib (replace_Z s))"
  by (simp add: parse_date_any_def py_str_def)

text \<open>
  \<^verbatim>\<open>pick_first\<close> passes over an absent key and stops at a present one; it looks at
  presence only, so a present sentinel is picked and the later fields are not tried.
\<close>

lemma pick_first_absent:
  "CHR ''.'' \<notin> set a \<Longrightarrow> map_of doc a = None \<Longrightarrow>
     pick_first doc (a # keys) dflt = pick_first doc keys dflt"
  by simp

lemma pick_first_present:
  "CHR ''.'' \<notin> set a \<Longrightarrow> map_of doc a = Some v \<Longrightarrow> \<not> blank v \<Longrightarrow>
     pick_first doc (a # keys) dflt = v"
  by simp

lemma pick_first_sentinel:
  "pick_first [(''booked_at'', PStr ''BLACK''), (''arrest_date'', PStr ''2024-01-05'')]
     [''booked_at'', ''arrest_date''] PNone = PStr ''BLACK''"
  by (simp add: blank_def)

text \<open>The amount of the source pass on the inputs of numeric extraction.\<close>

lemma source_bond_examples:
  "source_bond (PStr ''$1,234.50'') = Finite 1234.5
   \<and> source_bond (PDict [(''$numberInt'', PStr ''7'')]) = Finite 7
   \<and> source_bond (PList [PStr ''a'', PDict [(''$numberDouble'', PStr ''2.5'')]]) = Finite 0
   \<and> source_bond (PStr ''n/a'') = Finite 0"
  by code_simp

section \<open>The list marker in the flattened document and its statistics\<close>

lemma map_of_dict_extend: "map_of (dict_extend d items) = map_of d ++ map_of (rev items)"
proof (induction d items rule: dict_extend.induct)
  case (1 d)
  then show ?case by simp
next
  case (2 d k v items)
  have "map_of (dict_set d k v) ++ map_of (rev items)
          = map_of d ++ ([k \<mapsto> v] ++ map_of (rev items))"
    by (auto simp: map_of_dict_set fun_eq_iff map_add_def split: option.splits)
  with 2 show ?case by (simp add: map_of_append)
qed

lemma map_of_dict_of_items: "map_of (dict_of_items items) = map_of (rev items)"
  by (simp add: dict_of_items_def map_of_dict_extend)

lemma distinct_dict_set:
  "distinct (map fst d) \<Longrightarrow> distinct (map fst (dict_set d k v))"
  by (induction d k v rule: dict_set.induct) (auto simp: keys_dict_set)

lemma distinct_dict_extend:
  "distinct (map fst d) \<Longrightarrow> distinct (map fst (dict_extend d items))"
  by (induction d items rule: dict_extend.induct) (auto simp: distinct_dict_set)

lemma distinct_dict_of_items: "distinct (map fst (dict_of_items items))"
  by (simp add: dict_of_items_def distinct_dict_extend)

lemma distinct_flatten: "distinct (map fst (flatten v p))"
  by (cases v) (simp_all add: distinct_dict_of_items)

lemma map_of_rev_distinct: "distinct (map fst l) \<Longrightarrow> map_of (rev l) = map_of l"
proof (induction l)
  case Nil
  then show ?case by simp
next
  case (Cons a l)
  obtain k v where a: "a = (k, v)" by (cases a)
  with Cons.prems have "map_of l k = None"
    by (simp add: map_of_eq_None_iff)
  with Cons a show ?case
    by (auto simp: map_of_append fun_eq_iff map_add_def split: option.splits)
qed

lemma map_of_rev_flatten: "map_of (rev (flatten v p)) = map_of (flatten v p)"
  by (rule map_of_rev_distinct) (rule distinct_flatten)

lemma map_of_flatten:
  "map_of (flatten v p) = map_of (rev (emitted v p))"
  "map_of (rev (flatten_dict kvs p)) = map_of (rev (emitted_dict kvs p))"
  "map_of (rev (flatten_list xs i p)) = map_of (rev (emitted_list xs i p))"
proof (induction v p and kvs p and xs i p rule: flatten_flatten_dict_flatten_list.induct)
qed (simp_all add: map_of_dict_of_items map_of_append map_of_rev_flatten)

lemma map_of_only_value:
  "(k, x) \<in> set l \<Longrightarrow> (\<forall>v. (k, v) \<in> set l \<longrightarrow> v = x) \<Longrightarrow> map_of l k = Some x"
proof -
  assume mem: "(k, x) \<in> set l" and only: "\<forall>v. (k, v) \<in> set l \<longrightarrow> v = x"
  from mem have "k \<in> fst ` set l" by force
  then obtain v where v: "map_of l k = Some v"
    by (cases "map_of l k") (auto simp: map_of_eq_None_iff)
  then have "(k, v) \<in> set l" by (rule map_of_SomeD)
  with only v show ?thesis by simp
qed

lemma keys_segment:
  "segment_of xs ys \<Longrightarrow> fst ` set xs \<subseteq> fst ` set ys"
  unfolding segment_of_def by auto


lemma counter_get_incr: "counter_get (counter_incr c k) k = counter_get c k + 1"
  by (induction c) (auto simp: counter_get_def)

lemma types_observe:
  "types (observe st first val) = counter_incr (types st) (type_name val)"
  by (simp add: observe_def Let_def split: option.splits)

lemma stat_of_dict_set:
  "stat_of (dict_set fs k st) k' = (if k' = k then st else stat_of fs k')"
  by (simp add: stat_of_def map_of_dict_set)

lemma stat_of_scan_items_other:
  "k \<notin> fst ` set items \<Longrightarrow> stat_of (scan_items items seen fs) k = stat_of fs k"
  by (induction items seen fs rule: scan_items.induct) (auto simp: stat_of_dict_set)

lemma stat_of_scan_items_hit:
  "distinct (map fst items) \<Longrightarrow> (k, val) \<in> set items \<Longrightarrow> k \<noteq> [] \<Longrightarrow> k \<notin> set seen \<Longrightarrow>
     stat_of (scan_items items seen fs) k = observe (stat_of fs k) True val"
proof (induction items seen fs rule: scan_items.induct)
  case (1 seen fs)
  then show ?case by simp
next
  case (2 path v rest seen fs)
  show ?case
  proof (cases "path = k")
    case True
    with "2.prems" have "v = val" and "k \<notin> fst ` set rest"
      by (auto simp: image_iff)
    with True "2.prems" show ?thesis
      by (simp add: stat_of_scan_items_other stat_of_dict_set)
  next
    case False
    with "2.prems" have "(k, val) \<in> set rest" "distinct (map fst rest)" "k \<notin> set (path # seen)"
      by auto
    with False "2.IH" "2.prems"(3) show ?thesis
      by (cases "path = []") (simp_all add: stat_of_dict_set)
  qed
qed

lemma stat_of_scan_marker:
  "map_of (flatten doc []) k = Some val \<Longrightarrow> k \<noteq> [] \<Longrightarrow>
     stat_of (scan_docs [doc] fs) k = observe (stat_of fs k) True val"
  using stat_of_scan_items_hit[OF distinct_flatten, of k val doc "[]" "[]" fs]
  by (auto dest: map_of_SomeD)


text \<open>
  C10 (amended). For every document and every path \<open>p\<close> at which it holds a list, the
  flattened mapping has the marker key \<open>p + "[]"\<close> and every index-qualified path of
  every element. The value of a path is that of the last entry emitted for it, so the
  marker is mapped to \<open>True\<close> unless an entry emitted for the same path string carries
  another value, whatever other paths collide. Wherever the marker is mapped to \<open>True\<close>
  the statistics of the marker path see exactly one observation of a boolean for the
  document. When no two emitted entries share a path, every entry of every element is in
  the result. An empty list on its own flattens to exactly one entry, the marker, and no
  indexed path.
\<close>

theorem flatten_list_marker:
  "(p, xs) \<in> set (lists_at doc '''') \<Longrightarrow>
     p @ ''[]'' \<in> fst ` set (flatten doc '''')
     \<and> (\<forall>i < length xs.
           fst ` set (flatten (xs ! i) (p @ ''['' @ str_nat i @ '']''))
             \<subseteq> fst ` set (flatten doc ''''))
     \<and> (\<forall>k. map_of (flatten doc '''') k = map_of (rev (emitted doc '''')) k)
     \<and> ((\<forall>v. (p @ ''[]'', v) \<in> set (emitted doc '''') \<longrightarrow> v = PBool True) \<longrightarrow>
           map_of (flatten doc '''') (p @ ''[]'') = Some (PBool True))
     \<and> (map_of (flatten doc '''') (p @ ''[]'') = Some (PBool True) \<longrightarrow>
           stat_of (scan_docs [doc] fs) (p @ ''[]'')
             = observe (stat_of fs (p @ ''[]'')) True (PBool True)
           \<and> counter_get (types (stat_of (scan_docs [doc] fs) (p @ ''[]''))) ''bool''
               = counter_get (types (stat_of fs (p @ ''[]''))) ''bool'' + 1)
     \<and> (distinct (map fst (emitted doc '''')) \<longrightarrow>
           (\<forall>i < length xs.
              set (flatten (xs ! i) (p @ ''['' @ str_nat i @ '']'')) \<subseteq> set (flatten doc '''')))
     \<and> flatten (PList []) q = [(q @ ''[]'', PBool True)]"
proof (intro conjI impI allI)
  assume held: "(p, xs) \<in> set (lists_at doc '''')"
  note marker = marker_emitted(1)[OF held]
  from marker have "p @ ''[]'' \<in> fst ` set (emitted doc '''')"
    by force
  then show "p @ ''[]'' \<in> fst ` set (flatten doc '''')"
    by (simp add: keys_flatten)
  show "flatten (PList []) q = [(q @ ''[]'', PBool True)]"
    by (simp add: dict_of_items_def)
  {
    fix k
    show "map_of (flatten doc '''') k = map_of (rev (emitted doc '''')) k"
      by (simp add: map_of_flatten(1))
  }
  {
    assume only: "\<forall>v. (p @ ''[]'', v) \<in> set (emitted doc '''') \<longrightarrow> v = PBool True"
    have "map_of (rev (emitted doc '''')) (p @ ''[]'') = Some (PBool True)"
    proof (rule map_of_only_value)
      show "(p @ ''[]'', PBool True) \<in> set (rev (emitted doc ''''))"
        using marker by simp
      show "\<forall>v. (p @ ''[]'', v) \<in> set (rev (emitted doc '''')) \<longrightarrow> v = PBool True"
        using only by simp
    qed
    then show "map_of (flatten doc '''') (p @ ''[]'') = Some (PBool True)"
      by (simp only: map_of_flatten(1))
  }
  {
    assume val: "map_of (flatten doc '''') (p @ ''[]'') = Some (PBool True)"
    then show st: "stat_of (scan_docs [doc] fs) (p @ ''[]'')
             = observe (stat_of fs (p @ ''[]'')) True (PBool True)"
      by (intro stat_of_scan_marker) simp_all
    show "counter_get (types (stat_of (scan_docs [doc] fs) (p @ ''[]''))) ''bool''
               = counter_get (types (stat_of fs (p @ ''[]''))) ''bool'' + 1"
      unfolding st types_observe using counter_get_incr[of _ "''bool''"] by simp
  }
  {
    fix i
    assume i: "i < length xs"
    from element_emitted(1)[OF held i]
    have seg: "segment_of (emitted (xs ! i) (p @ ''['' @ str_nat i @ '']'')) (emitted doc '''')" .
    then show "fst ` set (flatten (xs ! i) (p @ ''['' @ str_nat i @ '']''))
             \<subseteq> fst ` set (flatten doc '''')"
      by (simp add: keys_flatten keys_segment)
    assume dist: "distinct (map fst (emitted doc ''''))"
    then have eq: "flatten doc '''' = emitted doc ''''"
      by (rule flatten_eq_emitted(1))
    from segment_of_distinct_keys[OF seg dist]
    have "flatten (xs ! i) (p @ ''['' @ str_nat i @ '']'')
            = emitted (xs ! i) (p @ ''['' @ str_nat i @ '']'')"
      by (rule flatten_eq_emitted(1))
    with segment_of_set[OF seg] eq
    show "set (flatten (xs ! i) (p @ ''['' @ str_nat i @ '']'')) \<subseteq> set (flatten doc '''')"
      by simp
  }
qed

theorem flatten_list_marker_witness:
  "(''a'', [PInt 1, PList []]) \<in> set (lists_at list_and_clash '''')
   \<and> emitted list_and_clash ''''
       = [(''a[0]'', PInt 1), (''a[1][]'', PBool True), (''a[]'', PBool True),
          (''b.c'', PInt 1), (''b.c'', PInt 2)]
   \<and> flatten list_and_clash ''''
       = [(''a[0]'', PInt 1), (''a[1][]'', PBool True), (''a[]'', PBool True), (''b.c'', PInt 2)]
   \<and> map_of (flatten list_and_clash '''') ''a[]'' = Some (PBool True)
   \<and> counter_get (types (stat_of (scan_docs [list_and_clash] []) ''a[]'')) ''bool'' = 1"
proof -
  have held: "(''a'', [PInt 1, PList []]) \<in> set (lists_at list_and_clash '''')"
    by simp
  have em: "emitted list_and_clash ''''
       = [(''a[0]'', PInt 1), (''a[1][]'', PBool True), (''a[]'', PBool True),
          (''b.c'', PInt 1), (''b.c'', PInt 2)]"
    by (simp add: str_nat.simps digit_char_def)
  have fl: "flatten list_and_clash ''''
       = [(''a[0]'', PInt 1), (''a[1][]'', PBool True), (''a[]'', PBool True), (''b.c'', PInt 2)]"
    by (simp add: str_nat.simps digit_char_def dict_of_items_def)
  have only: "\<forall>v. (''a'' @ ''[]'', v) \<in> set (emitted list_and_clash '''') \<longrightarrow> v = PBool True"
    unfolding em by simp
  note main = flatten_list_marker[OF held, of "[]" "''z''"]
  note marker_rule = main[THEN conjunct2, THEN conjunct2, THEN conjunct2, THEN conjunct1]
  note stats_rule = main[THEN conjunct2, THEN conjunct2, THEN conjunct2, THEN conjunct2,
      THEN conjunct1]
  from marker_rule only
  have val: "map_of (flatten list_and_clash '''') (''a'' @ ''[]'') = Some (PBool True)"
    by (rule mp)
  from stats_rule val
  have "stat_of (scan_docs [list_and_clash] []) (''a'' @ ''[]'')
          = observe (stat_of [] (''a'' @ ''[]'')) True (PBool True)
        \<and> counter_get (types (stat_of (scan_docs [list_and_clash] []) (''a'' @ ''[]''))) ''bool''
          = counter_get (types (stat_of [] (''a'' @ ''[]''))) ''bool'' + 1"
    by (rule mp)
  then have "counter_get (types (stat_of (scan_docs [list_and_clash] []) (''a'' @ ''[]''))) ''bool''
          = counter_get (types (stat_of [] (''a'' @ ''[]''))) ''bool'' + 1"
    by (rule conjunct2)
  moreover have "counter_get (types (stat_of [] (''a'' @ ''[]''))) ''bool'' = 0"
    by (simp add: stat_of_def new_stat_def counter_get_def)
  moreover have "''a'' @ ''[]'' = ''a[]''"
    by simp
  ultimately
  have one: "counter_get (types (stat_of (scan_docs [list_and_clash] []) ''a[]'')) ''bool'' = 1"
    by (simp only:)
  from val have val': "map_of (flatten list_and_clash '''') ''a[]'' = Some (PBool True)"
    by simp
  from held em fl val' one show ?thesis
    by (intro conjI)
qed

text \<open>
  C10 as stated fails when a sibling key spells the marker path itself: both entries
  have the path \<open>a[]\<close>, and \<^verbatim>\<open>dict(items)\<close> keeps the later value.
\<close>

theorem flatten_marker_collision:
  "(''a'', []) \<in> set (lists_at (PDict [(''a'', PList []), (''a[]'', PInt 5)]) '''')
   \<and> flatten (PDict [(''a'', PList []), (''a[]'', PInt 5)]) '''' = [(''a[]'', PInt 5)]
   \<and> map_of (flatten (PDict [(''a'', PList []), (''a[]'', PInt 5)]) '''') ''a[]''
        \<noteq> Some (PBool True)"
  by (simp add: dict_of_items_def)

end
